theory Spec2Isabelle
  imports Main
begin

section \<open>The image-usage gatherer\<close>

text \<open>
  The repository holds two revisions of the gatherer. The file
  \<^verbatim>\<open>lighthouse-core/gather/gatherers/image-usage.js\<close> builds its index of network
  records with \<^verbatim>\<open>pick\<close> and resolves all images at once with \<^verbatim>\<open>Promise.all\<close>; the
  second revision writes the index entry as an object literal and resolves the images one
  after the other through \<^verbatim>\<open>reduce\<close>. Both are embedded. Where the two revisions name the same
  thing differently, each definition keeps the name of its own revision; where they share a
  name, the definition of the first revision carries a suffix (\<open>_pick\<close>, \<open>_anchor\<close>, \<open>_all\<close>).
\<close>

subsection \<open>JavaScript values and objects\<close>

text \<open>
  A property that holds \<^verbatim>\<open>undefined\<close> is \<open>None\<close>. An object whose keys matter is a map from
  keys to such values: \<open>obj k = None\<close> says that \<open>obj\<close> has no own property \<open>k\<close>, and
  \<open>obj k = Some None\<close> that it has one holding \<^verbatim>\<open>undefined\<close>. The values of a transfer's
  properties (numbers, strings, header lists) are only ever copied, so their type \<open>'v\<close> is left
  open.
\<close>

type_synonym 'v object = "string \<rightharpoonup> 'v option"

text \<open>
  A raw network record of the trace: the two fields the gatherer reads by name, and
  \<open>getProp r key\<close> for \<^verbatim>\<open>record[key]\<close> on every other key. The source's \<^verbatim>\<open>_url\<close> and
  \<^verbatim>\<open>_mimeType\<close> are not identifiers here and are written \<open>priv_url\<close>, \<open>priv_mimeType\<close>.
\<close>

record 'v network_request =
  priv_url :: string
  priv_mimeType :: "string option"
  getProp :: "string \<Rightarrow> 'v option"

text \<open>\<^verbatim>\<open>String(x)\<close> on a string or \<^verbatim>\<open>undefined\<close>, as the regular expression applies it.\<close>

definition toString :: "string option \<Rightarrow> string" where
  "toString x = (case x of None \<Rightarrow> ''undefined'' | Some s \<Rightarrow> s)"

text \<open>\<^verbatim>\<open>/^image/.test(x)\<close>: the string begins with the five characters \<^verbatim>\<open>image\<close>.\<close>

definition test_image :: "string option \<Rightarrow> bool" where
  "test_image x = (take 5 (toString x) = ''image'')"

subsection \<open>The index of network records\<close>

text \<open>
  \<^verbatim>\<open>pick(obj, keys)\<close>: a fresh object that has exactly the listed keys, each holding
  \<^verbatim>\<open>obj[key]\<close>. The loop runs over the keys from left to right.
\<close>

fun pick_loop :: "(string \<Rightarrow> 'v option) \<Rightarrow> string list \<Rightarrow> 'v object \<Rightarrow> 'v object" where
  "pick_loop obj [] out = out"
| "pick_loop obj (key # keys) out = pick_loop obj keys (out(key \<mapsto> obj key))"

definition pick :: "(string \<Rightarrow> 'v option) \<Rightarrow> string list \<Rightarrow> 'v object" where
  "pick obj keys = pick_loop obj keys Map.empty"

text \<open>
  The index is a plain object used as a dictionary from URL to entry; it is a map here.
  The keys written are the \<^verbatim>\<open>_url\<close> of transfers and the keys read are the \<^verbatim>\<open>currentSrc\<close> of
  images, which are resource URLs or the empty string, so the members that a JavaScript
  object inherits from \<^verbatim>\<open>Object.prototype\<close> (\<^verbatim>\<open>constructor\<close>, \<^verbatim>\<open>toString\<close>, ...) are never
  among them and are not modelled.

  First revision: the callback of \<^verbatim>\<open>reduce\<close> and the fold.
\<close>

definition index_step_pick ::
  "(string \<rightharpoonup> 'v object) \<Rightarrow> 'v network_request \<Rightarrow> (string \<rightharpoonup> 'v object)" where
  "index_step_pick m r =
     (if test_image (priv_mimeType r)
      then m(priv_url r \<mapsto>
             pick (getProp r) [''url'', ''requestHeaders'', ''resourceSize'',
                            ''startTime'', ''endTime''])
      else m)"

definition indexedNetworkRecords_pick ::
  "'v network_request list \<Rightarrow> (string \<rightharpoonup> 'v object)" where
  "indexedNetworkRecords_pick networkRecords = foldl index_step_pick Map.empty networkRecords"

text \<open>Second revision: the entry is an object literal of five properties.\<close>

definition index_entry :: "'v network_request \<Rightarrow> 'v object" where
  "index_entry r =
     [''url'' \<mapsto> getProp r ''url'',
      ''resourceSize'' \<mapsto> getProp r ''resourceSize'',
      ''startTime'' \<mapsto> getProp r ''startTime'',
      ''endTime'' \<mapsto> getProp r ''endTime'',
      ''responseReceivedTime'' \<mapsto> getProp r ''responseReceivedTime'']"

definition index_step ::
  "(string \<rightharpoonup> 'v object) \<Rightarrow> 'v network_request \<Rightarrow> (string \<rightharpoonup> 'v object)" where
  "index_step m r =
     (if test_image (priv_mimeType r) then m(priv_url r \<mapsto> index_entry r) else m)"

definition indexedNetworkRecords ::
  "'v network_request list \<Rightarrow> (string \<rightharpoonup> 'v object)" where
  "indexedNetworkRecords networkRecords = foldl index_step Map.empty networkRecords"

subsection \<open>The snapshot of image elements, taken inside the page\<close>

text \<open>
  \<^verbatim>\<open>String.prototype.split\<close> with a one-character separator: the pieces between the
  separators, never an empty list.
\<close>

fun split :: "char \<Rightarrow> string \<Rightarrow> string list" where
  "split sep [] = [] # []"
| "split sep (c # cs) =
     (let r = split sep cs in if c = sep then [] # r else (c # hd r) # tl r)"

text \<open>
  \<^verbatim>\<open>String.prototype.trim\<close> removes white space and line terminators at both ends; among
  8-bit code units these are tab, line feed, vertical tab, form feed, carriage return,
  space and no-break space.
\<close>

definition isWhiteSpace :: "char \<Rightarrow> bool" where
  "isWhiteSpace c = (c \<in> set [CHR 0x09, CHR 0x0A, CHR 0x0B, CHR 0x0C, CHR 0x0D, CHR 0x20, CHR 0xA0])"

definition trim :: "string \<Rightarrow> string" where
  "trim s = rev (dropWhile isWhiteSpace (rev (dropWhile isWhiteSpace s)))"

text \<open>\<^verbatim>\<open>entries.map(entry => entry.trim().split(' ')[0])\<close>\<close>

definition relativeUrls :: "string \<Rightarrow> string list" where
  "relativeUrls srcset =
     map (\<lambda>entry. hd (split CHR '' '' (trim entry))) (split CHR '','' srcset)"

text \<open>
  First revision: each URL is written to the \<^verbatim>\<open>href\<close> of a fresh anchor and read back;
  \<open>a_href\<close> is what the page gives back for it.
\<close>

definition parseSrcsetUrls_anchor :: "(string \<Rightarrow> string) \<Rightarrow> string \<Rightarrow> string list" where
  "parseSrcsetUrls_anchor a_href srcset =
     (if srcset = [] then [] else map (\<lambda>url. a_href url) (relativeUrls srcset))"

text \<open>
  Second revision: \<open>new_URL url\<close> is \<^verbatim>\<open>new URL(url, window.location.href).href\<close>, \<open>None\<close>
  when the constructor throws; the \<^verbatim>\<open>catch\<close> branch then returns \<open>url\<close> itself.
\<close>

definition parseSrcsetUrls :: "(string \<Rightarrow> string option) \<Rightarrow> string \<Rightarrow> string list" where
  "parseSrcsetUrls new_URL srcset =
     (if srcset = [] then []
      else map (\<lambda>url. case new_URL url of Some href \<Rightarrow> href | None \<Rightarrow> url)
             (relativeUrls srcset))"

text \<open>
  What \<^verbatim>\<open>toObject\<close> and \<^verbatim>\<open>getElementInfo\<close> read from a DOM element. Both \<^verbatim>\<open>img\<close> and
  \<^verbatim>\<open>source\<close> elements have \<^verbatim>\<open>tagName\<close>, \<^verbatim>\<open>srcset\<close>, \<^verbatim>\<open>sizes\<close> and the client box; only
  \<^verbatim>\<open>img\<close> has \<^verbatim>\<open>currentSrc\<close> and the natural size, only \<^verbatim>\<open>source\<close> has \<^verbatim>\<open>media\<close>, so
  these are \<^verbatim>\<open>undefined\<close> (\<open>None\<close>) on the other kind. An \<^verbatim>\<open>img\<close> also carries what is read
  through \<^verbatim>\<open>parentElement\<close>. Strings are lists of 8-bit code units.
\<close>

record dom_element =
  el_tagName :: string
  el_currentSrc :: "string option"
  el_srcset :: string
  el_sizes :: string
  el_media :: "string option"
  el_clientWidth :: nat
  el_clientHeight :: nat
  el_naturalWidth :: "nat option"
  el_naturalHeight :: "nat option"

record img_element = dom_element +
  parentElement_tagName :: string
  parentElement_children :: "dom_element list"

text \<open>The object that \<^verbatim>\<open>toObject\<close> / \<^verbatim>\<open>getElementInfo\<close> builds.\<close>

record element_info =
  tagName :: string
  src :: "string option"
  srcset :: string
  srcsetUrls :: "string list"
  sizes :: string
  media :: "string option"
  clientWidth :: nat
  clientHeight :: nat
  naturalWidth :: "nat option"
  naturalHeight :: "nat option"

text \<open>
  The same object once \<^verbatim>\<open>Object.assign\<close> has added \<^verbatim>\<open>isPicture\<close> and \<^verbatim>\<open>sources\<close>, and
  \<^verbatim>\<open>afterPass\<close> has added \<^verbatim>\<open>networkRecord\<close>. The page hands \<^verbatim>\<open>sources\<close> over as JSON text and
  \<^verbatim>\<open>afterPass\<close> parses it back; every field of an \<open>element_info\<close> is a string, a number, a
  list of strings or \<^verbatim>\<open>undefined\<close>, which that round trip gives back as they were (a property
  holding \<^verbatim>\<open>undefined\<close> comes back absent, and both are \<open>None\<close> here), so the field holds the
  list itself throughout.
\<close>

record 'v tag = element_info +
  isPicture :: bool
  sources :: "element_info list option"
  networkRecord :: "'v object option"

definition toObject :: "(string \<Rightarrow> string) \<Rightarrow> 'a dom_element_scheme \<Rightarrow> element_info" where
  "toObject a_href tag =
     \<lparr>tagName = el_tagName tag,
      src = el_currentSrc tag,
      srcset = el_srcset tag,
      srcsetUrls = parseSrcsetUrls_anchor a_href (el_srcset tag),
      sizes = el_sizes tag,
      media = el_media tag,
      clientWidth = el_clientWidth tag,
      clientHeight = el_clientHeight tag,
      naturalWidth = el_naturalWidth tag,
      naturalHeight = el_naturalHeight tag\<rparr>"

definition getElementInfo ::
  "(string \<Rightarrow> string option) \<Rightarrow> 'a dom_element_scheme \<Rightarrow> element_info" where
  "getElementInfo new_URL element =
     \<lparr>tagName = el_tagName element,
      src = el_currentSrc element,
      srcset = el_srcset element,
      srcsetUrls = parseSrcsetUrls new_URL (el_srcset element),
      sizes = el_sizes element,
      media = el_media element,
      clientWidth = el_clientWidth element,
      clientHeight = el_clientHeight element,
      naturalWidth = el_naturalWidth element,
      naturalHeight = el_naturalHeight element\<rparr>"

text \<open>
  The second \<^verbatim>\<open>filter\<close> of the picture branch,
  \<^verbatim>\<open>!element.media || window.matchMedia(element.media).matches\<close>; \<open>matchMedia m\<close> is the
  \<^verbatim>\<open>matches\<close> of the query \<open>m\<close> in the page.
\<close>

definition mediaMatches :: "(string \<Rightarrow> bool) \<Rightarrow> dom_element \<Rightarrow> bool" where
  "mediaMatches matchMedia element =
     (case el_media element of None \<Rightarrow> True | Some m \<Rightarrow> m = [] \<or> matchMedia m)"

text \<open>
  The callback of the outer \<^verbatim>\<open>map\<close>, for one \<^verbatim>\<open>img\<close>. The object literal passed to
  \<^verbatim>\<open>Object.assign\<close> is evaluated, and \<^verbatim>\<open>sources\<close> turned into text, before the assignment adds
  \<^verbatim>\<open>isPicture\<close> and \<^verbatim>\<open>sources\<close> to the image's own object: the last entry of \<^verbatim>\<open>sources\<close> is
  the plain \<open>element_info\<close>.
\<close>

definition collectOne_Tag ::
  "(string \<Rightarrow> string) \<Rightarrow> (string \<Rightarrow> bool) \<Rightarrow> img_element \<Rightarrow> 'v tag" where
  "collectOne_Tag a_href matchMedia tag =
     (if parentElement_tagName tag \<noteq> ''PICTURE''
      then element_info.extend (toObject a_href tag)
             \<lparr>isPicture = False, sources = None, networkRecord = None\<rparr>
      else
        let imgTagInfo = toObject a_href tag;
            sources' =
              map (toObject a_href)
                (filter (mediaMatches matchMedia)
                  (filter (\<lambda>tag. el_tagName tag = ''SOURCE'') (parentElement_children tag)))
              @ [imgTagInfo]
        in element_info.extend imgTagInfo
             \<lparr>isPicture = True, sources = Some sources', networkRecord = None\<rparr>)"

definition collectImageTagInfo ::
  "(string \<Rightarrow> string) \<Rightarrow> (string \<Rightarrow> bool) \<Rightarrow> img_element list \<Rightarrow> 'v tag list" where
  "collectImageTagInfo a_href matchMedia imgs = map (collectOne_Tag a_href matchMedia) imgs"

definition collectOne_Element ::
  "(string \<Rightarrow> string option) \<Rightarrow> (string \<Rightarrow> bool) \<Rightarrow> img_element \<Rightarrow> 'v tag" where
  "collectOne_Element new_URL matchMedia element =
     (let imgElementInfo = getElementInfo new_URL element in
      if parentElement_tagName element \<noteq> ''PICTURE''
      then element_info.extend imgElementInfo
             \<lparr>isPicture = False, sources = None, networkRecord = None\<rparr>
      else
        let sources' =
              map (getElementInfo new_URL)
                (filter (mediaMatches matchMedia)
                  (filter (\<lambda>element. el_tagName element = ''SOURCE'')
                    (parentElement_children element)))
              @ [imgElementInfo]
        in element_info.extend imgElementInfo
             \<lparr>isPicture = True, sources = Some sources', networkRecord = None\<rparr>)"

definition collectImageElementInfo ::
  "(string \<Rightarrow> string option) \<Rightarrow> (string \<Rightarrow> bool) \<Rightarrow> img_element list \<Rightarrow> 'v tag list" where
  "collectImageElementInfo new_URL matchMedia imgs =
     map (collectOne_Element new_URL matchMedia) imgs"

subsection \<open>Promises, the page and the objects of the snapshot\<close>

text \<open>
  \<^verbatim>\<open>determineNaturalSize\<close> runs in the page: it loads the URL into a fresh \<^verbatim>\<open>Image\<close> and
  waits for one of two events. \<open>Error_event e\<close> rejects with \<open>e\<close>; \<open>Load_event w h\<close>, where
  \<open>w\<close> and \<open>h\<close> are the image's \<^verbatim>\<open>naturalWidth\<close> and \<^verbatim>\<open>naturalHeight\<close>, resolves with the
  object \<^verbatim>\<open>{naturalWidth: w, naturalHeight: h}\<close>, written \<open>NaturalSize w h\<close>.
\<close>

datatype 'e image_event = Error_event 'e | Load_event nat nat

datatype natural_size = NaturalSize nat nat

definition determineNaturalSize :: "'e image_event \<Rightarrow> 'e + natural_size" where
  "determineNaturalSize ev =
     (case ev of Error_event e \<Rightarrow> Inl e | Load_event w h \<Rightarrow> Inr (NaturalSize w h))"

text \<open>
  The page and the driver are outside the program. \<open>page call url\<close> is the event that the
  image loaded for the element \<open>call\<close> from \<open>url\<close> fires, if it fires one; \<open>settled\<close> lists the
  calls that do get their event, in the order in which they get it. A call that is not
  listed stays pending for ever.

  The array that the snapshot returns holds one fresh object per image. Objects are
  addressed by their position in that array: the heap is the list of these objects, and a
  reference is an index into it. \<open>calls\<close> records each size request sent to the page: the
  element it is for and the URL passed.
\<close>

type_synonym 'e page = "nat \<Rightarrow> string option \<Rightarrow> 'e image_event"

type_synonym 'v heap = "'v tag list"

type_synonym calls = "(nat \<times> string option) list"

datatype ('e, 'a) promise = Fulfilled 'a | Rejected 'e | Pending

text \<open>
  The promise that the callback returns for one element: \<^verbatim>\<open>Promise.resolve(element)\<close>, or the
  promise of \<^verbatim>\<open>fetchElementWithSizeInformation\<close>, which waits for the page's answer to the
  request for \<open>url\<close> and then assigns the size to the element.
\<close>

datatype element_promise = Promise_resolve nat | SizePromise nat "string option"

text \<open>\<^verbatim>\<open>Object.assign(element, size)\<close>: writes the two properties of \<open>size\<close>.\<close>

definition Object_assign :: "'v tag \<Rightarrow> natural_size \<Rightarrow> 'v tag" where
  "Object_assign target sz =
     (case sz of NaturalSize w h \<Rightarrow> target\<lparr>naturalWidth := Some w, naturalHeight := Some h\<rparr>)"

text \<open>
  \<^verbatim>\<open>fetchTagWithSizeInformation\<close> and \<^verbatim>\<open>fetchElementWithSizeInformation\<close> are the same code:
  the URL is the element's \<^verbatim>\<open>src\<close>, the request is sent, and the promise returned carries the
  \<^verbatim>\<open>then\<close> callback. \<open>settleSize\<close> is that promise settling: a rejection of the request passes
  through (there is no second argument to \<^verbatim>\<open>then\<close> and no \<^verbatim>\<open>catch\<close>), a size is assigned to
  the element in place and the element itself is the value.
\<close>

definition fetchTagWithSizeInformation ::
  "'v heap \<times> calls \<Rightarrow> nat \<Rightarrow> calls \<times> element_promise" where
  "fetchTagWithSizeInformation st tag =
     (case st of (heap, calls) \<Rightarrow>
        let url = src (heap ! tag) in (calls @ [(tag, url)], SizePromise tag url))"

definition fetchElementWithSizeInformation ::
  "'v heap \<times> calls \<Rightarrow> nat \<Rightarrow> calls \<times> element_promise" where
  "fetchElementWithSizeInformation st element =
     (case st of (heap, calls) \<Rightarrow>
        let url = src (heap ! element) in (calls @ [(element, url)], SizePromise element url))"

definition settleSize ::
  "'e page \<Rightarrow> 'v heap \<Rightarrow> nat \<Rightarrow> string option \<Rightarrow> 'e + ('v heap \<times> nat)" where
  "settleSize page heap element url =
     (case determineNaturalSize (page element url) of
        Inl e \<Rightarrow> Inl e
      | Inr sz \<Rightarrow> Inr (heap[element := Object_assign (heap ! element) sz], element))"

text \<open>
  The first two statements of the callback: \<^verbatim>\<open>sources\<close> is parsed back when it is there, and
  \<^verbatim>\<open>networkRecord\<close> is set to the index entry under the key \<^verbatim>\<open>element.src\<close>.
\<close>

definition linkNetworkRecord :: "(string \<rightharpoonup> 'v object) \<Rightarrow> 'v tag \<Rightarrow> 'v tag" where
  "linkNetworkRecord idx element =
     element\<lparr>sources := (case sources element of None \<Rightarrow> None | Some parsed \<Rightarrow> Some parsed),
             networkRecord := idx (toString (src element))\<rparr>"

subsection \<open>Second revision: one element after the other\<close>

text \<open>
  What \<^verbatim>\<open>elementPromise.then(...)\<close> waits for: a resolved promise has its value at once, a
  size promise settles if its call is among \<open>settled\<close>.
\<close>

fun await :: "'e page \<Rightarrow> nat list \<Rightarrow> 'v heap \<Rightarrow> element_promise \<Rightarrow> ('e, 'v heap \<times> nat) promise" where
  "await page settled heap (Promise_resolve element) = Fulfilled (heap, element)"
| "await page settled heap (SizePromise element url) =
     (if element \<in> set settled
      then (case settleSize page heap element url of
              Inl e \<Rightarrow> Rejected e
            | Inr v \<Rightarrow> Fulfilled v)
      else Pending)"

text \<open>
  The \<^verbatim>\<open>reduce\<close> over the elements. Each callback runs only once the promise of the one
  before has been fulfilled with the collector; a rejected or pending promise is what the
  whole chain then is.
\<close>

fun reduce_elements ::
  "'e page \<Rightarrow> nat list \<Rightarrow> (string \<rightharpoonup> 'v object) \<Rightarrow> nat list \<Rightarrow>
   'v heap \<times> nat list \<times> calls \<Rightarrow> calls \<times> ('e, 'v heap \<times> nat list) promise" where
  "reduce_elements page settled idx [] (heap, collector, calls) =
     (calls, Fulfilled (heap, collector))"
| "reduce_elements page settled idx (element # elements) (heap, collector, calls) =
     (let heap1 = heap[element := linkNetworkRecord idx (heap ! element)];
          (calls1, elementPromise) =
            (if isPicture (heap1 ! element) \<and> networkRecord (heap1 ! element) \<noteq> None
             then fetchElementWithSizeInformation (heap1, calls) element
             else (calls, Promise_resolve element))
      in case await page settled heap1 elementPromise of
           Fulfilled (heap2, element') \<Rightarrow>
             reduce_elements page settled idx elements (heap2, collector @ [element'], calls1)
         | Rejected e \<Rightarrow> (calls1, Rejected e)
         | Pending \<Rightarrow> (calls1, Pending))"

text \<open>
  \<^verbatim>\<open>afterPass\<close>: \<open>snapshot\<close> is the promise of the element array that the driver returns for
  \<^verbatim>\<open>collectImageElementInfo\<close>. The result is the list of requests sent and the promise
  returned, whose value is the collector (an array of references) with the heap it refers to.
\<close>

definition afterPass ::
  "'e page \<Rightarrow> nat list \<Rightarrow> 'v network_request list \<Rightarrow> ('e, 'v tag list) promise \<Rightarrow>
   calls \<times> ('e, 'v heap \<times> nat list) promise" where
  "afterPass page settled networkRecords snapshot =
     (let idx = indexedNetworkRecords networkRecords in
      case snapshot of
        Fulfilled elements \<Rightarrow>
          reduce_elements page settled idx [0..<length elements] (elements, [], [])
      | Rejected e \<Rightarrow> ([], Rejected e)
      | Pending \<Rightarrow> ([], Pending))"

subsection \<open>First revision: all elements at once\<close>

text \<open>
  \<^verbatim>\<open>tags.map(tag => ...)\<close> runs the callback on every tag in turn, before any request is
  answered, and yields the array of promises.
\<close>

fun tags_map ::
  "(string \<rightharpoonup> 'v object) \<Rightarrow> nat list \<Rightarrow> 'v heap \<times> calls \<Rightarrow>
   ('v heap \<times> calls) \<times> element_promise list" where
  "tags_map idx [] st = (st, [])"
| "tags_map idx (tag # tags) (heap, calls) =
     (let heap1 = heap[tag := linkNetworkRecord idx (heap ! tag)];
          (calls1, p) =
            (if isPicture (heap1 ! tag) \<and> networkRecord (heap1 ! tag) \<noteq> None
             then fetchTagWithSizeInformation (heap1, calls) tag
             else (calls, Promise_resolve tag));
          (st2, ps) = tags_map idx tags (heap1, calls1)
      in (st2, p # ps))"

text \<open>The state of a promise of that array before any request is answered.\<close>

definition initial_state :: "element_promise \<Rightarrow> ('e, nat) promise" where
  "initial_state p = (case p of Promise_resolve tag \<Rightarrow> Fulfilled tag | SizePromise tag url \<Rightarrow> Pending)"

text \<open>
  The request for the tag \<open>s\<close> is answered: its promise, if it is still pending, settles.
  \<^verbatim>\<open>Promise.all\<close> rejects with the reason of the first of its promises to reject, which
  \<open>first_rejection\<close> keeps.
\<close>

definition settle_event ::
  "'e page \<Rightarrow> element_promise list \<Rightarrow>
   'v heap \<times> ('e, nat) promise list \<times> 'e option \<Rightarrow> nat \<Rightarrow>
   'v heap \<times> ('e, nat) promise list \<times> 'e option" where
  "settle_event page ps st s =
     (case st of (heap, states, first_rejection) \<Rightarrow>
        if s < length ps \<and> s < length states \<and> states ! s = Pending
        then (case ps ! s of
                Promise_resolve tag \<Rightarrow> (heap, states, first_rejection)
              | SizePromise tag url \<Rightarrow>
                  (case settleSize page heap tag url of
                     Inr (heap', tag') \<Rightarrow> (heap', states[s := Fulfilled tag'], first_rejection)
                   | Inl e \<Rightarrow>
                       (heap, states[s := Rejected e],
                        (case first_rejection of None \<Rightarrow> Some e | Some e0 \<Rightarrow> Some e0))))
        else (heap, states, first_rejection))"

text \<open>
  \<^verbatim>\<open>Promise.all\<close> once every answer that comes has come: rejected if one of the promises
  was, pending while one of them is, and otherwise fulfilled with the values in the order
  of the promises.
\<close>

definition Promise_all ::
  "'v heap \<times> ('e, nat) promise list \<times> 'e option \<Rightarrow> ('e, 'v heap \<times> nat list) promise" where
  "Promise_all st =
     (case st of (heap, states, first_rejection) \<Rightarrow>
        (case first_rejection of
           Some e \<Rightarrow> Rejected e
         | None \<Rightarrow>
             if Pending \<in> set states then Pending
             else Fulfilled (heap,
                    concat (map (\<lambda>p. case p of Fulfilled tag \<Rightarrow> [tag] | Rejected e \<Rightarrow> []
                                      | Pending \<Rightarrow> []) states))))"

definition afterPass_all ::
  "'e page \<Rightarrow> nat list \<Rightarrow> 'v network_request list \<Rightarrow> ('e, 'v tag list) promise \<Rightarrow>
   calls \<times> ('e, 'v heap \<times> nat list) promise" where
  "afterPass_all page settled networkRecords snapshot =
     (let idx = indexedNetworkRecords_pick networkRecords in
      case snapshot of
        Fulfilled tags \<Rightarrow>
          (case tags_map idx [0..<length tags] (tags, []) of
             ((heap1, calls), ps) \<Rightarrow>
               (calls,
                Promise_all
                  (foldl (settle_event page ps) (heap1, map initial_state ps, None) settled)))
      | Rejected e \<Rightarrow> ([], Rejected e)
      | Pending \<Rightarrow> ([], Pending))"

subsection \<open>Notation for the properties of the pass\<close>

text \<open>
  Three shorthands, unfolded wherever they are written. An element qualifies when the
  condition of the callback, \<^verbatim>\<open>element.isPicture && element.networkRecord\<close>, holds once
  \<^verbatim>\<open>networkRecord\<close> has been looked up under its \<^verbatim>\<open>src\<close>. Its request is answered when its call
  settles and the image loads. The enriched element is the element with its network record
  linked and, if it qualifies and the page reports a loaded image, with that image's size
  assigned.
\<close>

abbreviation qualifies :: "(string \<rightharpoonup> 'v object) \<Rightarrow> 'v tag \<Rightarrow> bool" where
  "qualifies idx element \<equiv> isPicture element \<and> idx (toString (src element)) \<noteq> None"

abbreviation answered :: "'e page \<Rightarrow> nat list \<Rightarrow> nat \<Rightarrow> 'v tag \<Rightarrow> bool" where
  "answered page settled i element \<equiv>
     i \<in> set settled \<and> (\<exists>w h. page i (src element) = Load_event w h)"

abbreviation enriched :: "'e page \<Rightarrow> (string \<rightharpoonup> 'v object) \<Rightarrow> nat \<Rightarrow> 'v tag \<Rightarrow> 'v tag" where
  "enriched page idx i element \<equiv>
     (if qualifies idx element
      then (case page i (src element) of
              Load_event w h \<Rightarrow> Object_assign (linkNetworkRecord idx element) (NaturalSize w h)
            | Error_event e \<Rightarrow> linkNetworkRecord idx element)
      else linkNetworkRecord idx element)"

section \<open>Properties\<close>

subsection \<open>The index of network records\<close>

lemma pick_loop_apply:
  "pick_loop obj keys out k = (if k \<in> set keys then Some (obj k) else out k)"
  by (induction keys arbitrary: out) auto

lemma pick_apply: "pick obj keys k = (if k \<in> set keys then Some (obj k) else None)"
  by (simp add: pick_def pick_loop_apply)

lemma dom_pick: "dom (pick obj keys) = set keys"
  by (auto simp: pick_apply dom_def)

lemma index_entry_apply:
  "index_entry r k =
     (if k \<in> set [''url'', ''resourceSize'', ''startTime'', ''endTime'', ''responseReceivedTime'']
      then Some (getProp r k) else None)"
  by (simp add: index_entry_def)

lemma dom_index_entry:
  "dom (index_entry r) =
     set [''url'', ''resourceSize'', ''startTime'', ''endTime'', ''responseReceivedTime'']"
  by (auto simp: index_entry_apply dom_def split: if_splits)

lemma foldl_index_step:
  "foldl index_step m ts u =
     (if filter (\<lambda>r. test_image (priv_mimeType r) \<and> priv_url r = u) ts = [] then m u
      else Some (index_entry (last (filter (\<lambda>r. test_image (priv_mimeType r) \<and> priv_url r = u) ts))))"
  by (induction ts rule: rev_induct) (auto simp: index_step_def)

lemma foldl_index_step_pick:
  "foldl index_step_pick m ts u =
     (if filter (\<lambda>r. test_image (priv_mimeType r) \<and> priv_url r = u) ts = [] then m u
      else Some (pick (getProp (last (filter (\<lambda>r. test_image (priv_mimeType r) \<and> priv_url r = u) ts)))
                   [''url'', ''requestHeaders'', ''resourceSize'', ''startTime'', ''endTime'']))"
  by (induction ts rule: rev_induct) (auto simp: index_step_pick_def)

lemma foldl_index_step_filter:
  "foldl index_step m (filter (\<lambda>r. test_image (priv_mimeType r)) ts) = foldl index_step m ts"
  by (induction ts arbitrary: m) (auto simp: index_step_def)

lemma foldl_index_step_pick_filter:
  "foldl index_step_pick m (filter (\<lambda>r. test_image (priv_mimeType r)) ts) = foldl index_step_pick m ts"
  by (induction ts arbitrary: m) (auto simp: index_step_pick_def)

lemma dom_foldl_index_step:
  "dom (foldl index_step m ts) = dom m \<union> priv_url ` set (filter (\<lambda>r. test_image (priv_mimeType r)) ts)"
  by (induction ts arbitrary: m) (auto simp: index_step_def)

lemma dom_foldl_index_step_pick:
  "dom (foldl index_step_pick m ts) = dom m \<union> priv_url ` set (filter (\<lambda>r. test_image (priv_mimeType r)) ts)"
  by (induction ts arbitrary: m) (auto simp: index_step_pick_def)

text \<open>
  Claim C5. The index holds at most one entry per URL, and that entry comes from the last
  image-typed transfer with that URL in the order of the input: looking a URL up gives
  nothing when no image-typed transfer has it, and otherwise the projection of the last one
  that has it. This holds for the index of either revision.
\<close>

theorem index_last_write_wins:
  "indexedNetworkRecords ts u =
     (if filter (\<lambda>r. test_image (priv_mimeType r) \<and> priv_url r = u) ts = [] then None
      else Some (index_entry
                  (last (filter (\<lambda>r. test_image (priv_mimeType r) \<and> priv_url r = u) ts))))
   \<and> indexedNetworkRecords_pick ts u =
     (if filter (\<lambda>r. test_image (priv_mimeType r) \<and> priv_url r = u) ts = [] then None
      else Some (pick (getProp
                  (last (filter (\<lambda>r. test_image (priv_mimeType r) \<and> priv_url r = u) ts)))
                  [''url'', ''requestHeaders'', ''resourceSize'', ''startTime'', ''endTime'']))"
  by (simp add: indexedNetworkRecords_def indexedNetworkRecords_pick_def
      foldl_index_step foldl_index_step_pick)

theorem index_last_write_wins_witness:
  "indexedNetworkRecords
     [\<lparr>priv_url = ''http://x/a.png'', priv_mimeType = Some ''image/png'',
       getProp = [''resourceSize'' \<mapsto> (10::nat)]\<rparr>,
      \<lparr>priv_url = ''http://x/a.png'', priv_mimeType = Some ''image/png'',
       getProp = [''resourceSize'' \<mapsto> 20]\<rparr>,
      \<lparr>priv_url = ''http://x/a.css'', priv_mimeType = Some ''text/css'',
       getProp = [''resourceSize'' \<mapsto> 30]\<rparr>]
     ''http://x/a.png''
   = Some [''url'' \<mapsto> None, ''resourceSize'' \<mapsto> Some 20, ''startTime'' \<mapsto> None,
           ''endTime'' \<mapsto> None, ''responseReceivedTime'' \<mapsto> None]"
  using index_last_write_wins
    [of "[\<lparr>priv_url = ''http://x/a.png'', priv_mimeType = Some ''image/png'',
           getProp = [''resourceSize'' \<mapsto> (10::nat)]\<rparr>,
          \<lparr>priv_url = ''http://x/a.png'', priv_mimeType = Some ''image/png'',
           getProp = [''resourceSize'' \<mapsto> 20]\<rparr>,
          \<lparr>priv_url = ''http://x/a.css'', priv_mimeType = Some ''text/css'',
           getProp = [''resourceSize'' \<mapsto> 30]\<rparr>]" "''http://x/a.png''"]
  by (simp add: test_image_def toString_def index_entry_def)

text \<open>
  Claim C9. Only transfers whose mime type matches \<^verbatim>\<open>/^image/\<close> reach the index: the index of
  a trace is the index of its image-typed transfers alone, and its keys are exactly their
  URLs. This holds for the index of either revision.
\<close>

theorem index_only_images:
  "indexedNetworkRecords ts = indexedNetworkRecords (filter (\<lambda>r. test_image (priv_mimeType r)) ts)
   \<and> dom (indexedNetworkRecords ts) = priv_url ` set (filter (\<lambda>r. test_image (priv_mimeType r)) ts)
   \<and> indexedNetworkRecords_pick ts =
       indexedNetworkRecords_pick (filter (\<lambda>r. test_image (priv_mimeType r)) ts)
   \<and> dom (indexedNetworkRecords_pick ts) =
       priv_url ` set (filter (\<lambda>r. test_image (priv_mimeType r)) ts)"
  by (simp add: indexedNetworkRecords_def indexedNetworkRecords_pick_def
      foldl_index_step_filter foldl_index_step_pick_filter
      dom_foldl_index_step dom_foldl_index_step_pick)


theorem index_only_images_witness:
  "dom (indexedNetworkRecords
     [\<lparr>priv_url = ''http://x/a.png'', priv_mimeType = Some ''image/png'',
       getProp = [''resourceSize'' \<mapsto> (10::nat)]\<rparr>,
      \<lparr>priv_url = ''http://x/a.css'', priv_mimeType = Some ''text/css'',
       getProp = [''resourceSize'' \<mapsto> 30]\<rparr>,
      \<lparr>priv_url = ''http://x/b'', priv_mimeType = None,
       getProp = Map.empty\<rparr>]) = {''http://x/a.png''}"
proof -
  let ?ts = "[\<lparr>priv_url = ''http://x/a.png'', priv_mimeType = Some ''image/png'',
       getProp = [''resourceSize'' \<mapsto> (10::nat)]\<rparr>,
      \<lparr>priv_url = ''http://x/a.css'', priv_mimeType = Some ''text/css'',
       getProp = [''resourceSize'' \<mapsto> 30]\<rparr>,
      \<lparr>priv_url = ''http://x/b'', priv_mimeType = None,
       getProp = Map.empty\<rparr>]"
  from index_only_images [of ?ts]
  have "dom (indexedNetworkRecords ?ts) =
          priv_url ` set (filter (\<lambda>r. test_image (priv_mimeType r)) ?ts)"
    by blast
  also have "\<dots> = {''http://x/a.png''}"
    by (simp add: test_image_def toString_def)
  finally show ?thesis .
qed

lemma indexed_Some:
  assumes "indexedNetworkRecords ts u = Some entry"
  shows "\<exists>r\<in>set ts. test_image (priv_mimeType r) \<and> priv_url r = u \<and> entry = index_entry r"
proof -
  let ?rs = "filter (\<lambda>r. test_image (priv_mimeType r) \<and> priv_url r = u) ts"
  from assms have ne: "?rs \<noteq> []" and e: "entry = index_entry (last ?rs)"
    by (auto simp: indexedNetworkRecords_def foldl_index_step split: if_splits)
  from ne have "last ?rs \<in> set ?rs" by (rule last_in_set)
  with e show ?thesis by auto
qed

lemma indexed_pick_Some:
  assumes "indexedNetworkRecords_pick ts u = Some entry"
  shows "\<exists>r\<in>set ts. test_image (priv_mimeType r) \<and> priv_url r = u \<and>
           entry = pick (getProp r)
                     [''url'', ''requestHeaders'', ''resourceSize'', ''startTime'', ''endTime'']"
proof -
  let ?rs = "filter (\<lambda>r. test_image (priv_mimeType r) \<and> priv_url r = u) ts"
  from assms have ne: "?rs \<noteq> []"
    and e: "entry = pick (getProp (last ?rs))
                      [''url'', ''requestHeaders'', ''resourceSize'', ''startTime'', ''endTime'']"
    by (auto simp: indexedNetworkRecords_pick_def foldl_index_step_pick split: if_splits)
  from ne have "last ?rs \<in> set ?rs" by (rule last_in_set)
  with e show ?thesis by auto
qed

text \<open>
  Claim C6, as amended. An entry of the index has a fixed set of properties and nothing else
  of the transfer: in the second revision \<^verbatim>\<open>url\<close>, \<^verbatim>\<open>resourceSize\<close>, \<^verbatim>\<open>startTime\<close>, \<^verbatim>\<open>endTime\<close>
  and \<^verbatim>\<open>responseReceivedTime\<close>; in the first revision, which builds it with \<^verbatim>\<open>pick\<close>, \<^verbatim>\<open>url\<close>,
  \<^verbatim>\<open>requestHeaders\<close>, \<^verbatim>\<open>resourceSize\<close>, \<^verbatim>\<open>startTime\<close> and \<^verbatim>\<open>endTime\<close>. Each property holds
  what an image-typed transfer with that URL holds under the same name.
\<close>

theorem index_entry_fields:
  "(indexedNetworkRecords ts u = Some entry \<longrightarrow>
      dom entry = set [''url'', ''resourceSize'', ''startTime'', ''endTime'',
                       ''responseReceivedTime'']
      \<and> (\<exists>r\<in>set ts. test_image (priv_mimeType r) \<and> priv_url r = u
            \<and> (\<forall>k\<in>dom entry. entry k = Some (getProp r k))))
   \<and> (indexedNetworkRecords_pick ts u = Some entry' \<longrightarrow>
      dom entry' = set [''url'', ''requestHeaders'', ''resourceSize'', ''startTime'',
                        ''endTime'']
      \<and> (\<exists>r\<in>set ts. test_image (priv_mimeType r) \<and> priv_url r = u
            \<and> (\<forall>k\<in>dom entry'. entry' k = Some (getProp r k))))"
proof (intro conjI impI)
  assume a: "indexedNetworkRecords ts u = Some entry"
  then obtain r where r: "r \<in> set ts" "test_image (priv_mimeType r)" "priv_url r = u"
    "entry = index_entry r" using indexed_Some by blast
  show "dom entry = set [''url'', ''resourceSize'', ''startTime'', ''endTime'',
                       ''responseReceivedTime'']"
    using r(4) by (simp only: dom_index_entry)
  have "\<forall>k\<in>dom entry. entry k = Some (getProp r k)"
    using r(4) by (auto simp: index_entry_apply split: if_splits)
  with r show "\<exists>r\<in>set ts. test_image (priv_mimeType r) \<and> priv_url r = u
            \<and> (\<forall>k\<in>dom entry. entry k = Some (getProp r k))" by blast
next
  assume a: "indexedNetworkRecords_pick ts u = Some entry'"
  then obtain r where r: "r \<in> set ts" "test_image (priv_mimeType r)" "priv_url r = u"
    "entry' = pick (getProp r)
                [''url'', ''requestHeaders'', ''resourceSize'', ''startTime'', ''endTime'']"
    using indexed_pick_Some by blast
  show "dom entry' = set [''url'', ''requestHeaders'', ''resourceSize'', ''startTime'',
                        ''endTime'']"
    using r(4) by (simp only: dom_pick)
  have "\<forall>k\<in>dom entry'. entry' k = Some (getProp r k)"
    using r(4) by (auto simp: pick_apply split: if_splits)
  with r show "\<exists>r\<in>set ts. test_image (priv_mimeType r) \<and> priv_url r = u
            \<and> (\<forall>k\<in>dom entry'. entry' k = Some (getProp r k))" by blast
qed

text \<open>
  The first revision carries \<^verbatim>\<open>requestHeaders\<close> into the entry and leaves
  \<^verbatim>\<open>responseReceivedTime\<close> out, so its entries are not made of the five properties that the
  claim lists.
\<close>

theorem index_entry_fields_counterexample:
  "the (indexedNetworkRecords_pick
          [\<lparr>priv_url = ''http://x/a.png'', priv_mimeType = Some ''image/png'',
            getProp = [''requestHeaders'' \<mapsto> (7::nat), ''responseReceivedTime'' \<mapsto> 3]\<rparr>]
          ''http://x/a.png'') ''requestHeaders'' = Some (Some 7)
   \<and> the (indexedNetworkRecords_pick
          [\<lparr>priv_url = ''http://x/a.png'', priv_mimeType = Some ''image/png'',
            getProp = [''requestHeaders'' \<mapsto> (7::nat), ''responseReceivedTime'' \<mapsto> 3]\<rparr>]
          ''http://x/a.png'') ''responseReceivedTime'' = None
   \<and> \<not> dom (the (indexedNetworkRecords_pick
          [\<lparr>priv_url = ''http://x/a.png'', priv_mimeType = Some ''image/png'',
            getProp = [''requestHeaders'' \<mapsto> (7::nat), ''responseReceivedTime'' \<mapsto> 3]\<rparr>]
          ''http://x/a.png''))
        \<subseteq> set [''url'', ''resourceSize'', ''startTime'', ''endTime'', ''responseReceivedTime'']"
  by (simp add: indexedNetworkRecords_pick_def index_step_pick_def test_image_def toString_def
      pick_def)

theorem index_entry_fields_witness:
  "dom (the (indexedNetworkRecords
          [\<lparr>priv_url = ''http://x/a.png'', priv_mimeType = Some ''image/png'',
            getProp = [''requestHeaders'' \<mapsto> (7::nat), ''responseReceivedTime'' \<mapsto> 3]\<rparr>]
          ''http://x/a.png''))
     = set [''url'', ''resourceSize'', ''startTime'', ''endTime'', ''responseReceivedTime'']
   \<and> dom (the (indexedNetworkRecords_pick
          [\<lparr>priv_url = ''http://x/a.png'', priv_mimeType = Some ''image/png'',
            getProp = [''requestHeaders'' \<mapsto> (7::nat), ''responseReceivedTime'' \<mapsto> 3]\<rparr>]
          ''http://x/a.png''))
     = set [''url'', ''requestHeaders'', ''resourceSize'', ''startTime'', ''endTime'']"
proof -
  let ?ts = "[\<lparr>priv_url = ''http://x/a.png'', priv_mimeType = Some ''image/png'',
            getProp = [''requestHeaders'' \<mapsto> (7::nat), ''responseReceivedTime'' \<mapsto> 3]\<rparr>]"
  let ?u = "''http://x/a.png''"
  have 1: "indexedNetworkRecords ?ts ?u = Some (the (indexedNetworkRecords ?ts ?u))"
    by (simp add: indexedNetworkRecords_def index_step_def test_image_def toString_def)
  have 2: "indexedNetworkRecords_pick ?ts ?u = Some (the (indexedNetworkRecords_pick ?ts ?u))"
    by (simp add: indexedNetworkRecords_pick_def index_step_pick_def test_image_def toString_def)
  from index_entry_fields [of ?ts ?u "the (indexedNetworkRecords ?ts ?u)"
      "the (indexedNetworkRecords_pick ?ts ?u)"] 1 2
  show ?thesis by blast
qed


subsection \<open>The snapshot\<close>

lemma split_not_Nil: "split sep s \<noteq> []"
  by (induction s) (auto simp: Let_def)

lemma length_split: "length (split sep s) = Suc (count_list s sep)"
proof (induction s)
  case Nil
  show ?case by simp
next
  case (Cons c cs)
  have "length (tl (split sep cs)) = count_list cs sep"
    using Cons by simp
  with Cons show ?case by (simp add: Let_def)
qed

lemma length_relativeUrls: "length (relativeUrls s) = Suc (count_list s CHR '','')"
  by (simp add: relativeUrls_def length_split)

text \<open>
  Claim C7. Parsing a \<^verbatim>\<open>srcset\<close> attribute gives the empty list for the empty string and
  otherwise one URL per comma-separated entry, that is one more than the string has commas.
  The URL at each position is the normalised form of the entry's first word, or that word
  itself where the \<^verbatim>\<open>URL\<close> constructor throws: nothing is dropped and the exception does not
  escape. In the first revision, which reads the URL back from an anchor and has no
  exception to catch, each position holds what the anchor gives back.
\<close>

theorem parseSrcsetUrls_total:
  "parseSrcsetUrls new_URL [] = []
   \<and> parseSrcsetUrls_anchor a_href [] = []
   \<and> (s \<noteq> [] \<longrightarrow>
        length (parseSrcsetUrls new_URL s) = length (split CHR '','' s)
        \<and> length (parseSrcsetUrls_anchor a_href s) = length (split CHR '','' s)
        \<and> length (split CHR '','' s) = Suc (count_list s CHR '',''))
   \<and> (\<forall>i < length (parseSrcsetUrls new_URL s).
        parseSrcsetUrls new_URL s ! i =
          (case new_URL (relativeUrls s ! i) of
             Some href \<Rightarrow> href
           | None \<Rightarrow> relativeUrls s ! i))
   \<and> (\<forall>i < length (parseSrcsetUrls_anchor a_href s).
        parseSrcsetUrls_anchor a_href s ! i = a_href (relativeUrls s ! i))"
  by (simp add: parseSrcsetUrls_def parseSrcsetUrls_anchor_def length_relativeUrls length_split)

theorem parseSrcsetUrls_total_witness:
  "parseSrcsetUrls (\<lambda>u. if u = ''%'' then None else Some (''http://x/'' @ u))
     ''a.png 1x, % 2x,b.png'' = [''http://x/a.png'', ''%'', ''http://x/b.png'']
   \<and> length (parseSrcsetUrls (\<lambda>u. if u = ''%'' then None else Some (''http://x/'' @ u))
     ''a.png 1x, % 2x,b.png'') = Suc (count_list ''a.png 1x, % 2x,b.png'' CHR '','')
   \<and> parseSrcsetUrls (\<lambda>u. if u = ''%'' then None else Some (''http://x/'' @ u))
     ''a.png 1x, % 2x,b.png'' ! 1 = relativeUrls ''a.png 1x, % 2x,b.png'' ! 1"
  using parseSrcsetUrls_total
    [of "\<lambda>u. if u = ''%'' then None else Some (''http://x/'' @ u)" id "''a.png 1x, % 2x,b.png''"]
  by (simp add: parseSrcsetUrls_def relativeUrls_def trim_def isWhiteSpace_def)


lemma truncate_extend: "element_info.truncate (element_info.extend info ext) = info"
  by (simp add: element_info.defs)

lemma extend_fields:
  "isPicture (element_info.extend info \<lparr>isPicture = p, sources = s, networkRecord = n\<rparr>) = p"
  "sources (element_info.extend info \<lparr>isPicture = p, sources = s, networkRecord = n\<rparr>) = s"
  "networkRecord (element_info.extend info \<lparr>isPicture = p, sources = s, networkRecord = n\<rparr>)
     = n"
  by (simp_all add: element_info.defs)

lemma filter_SOURCE_media:
  "filter (mediaMatches matchMedia) (filter (\<lambda>e. el_tagName e = ''SOURCE'') es) =
   filter (\<lambda>e. el_tagName e = ''SOURCE'' \<and> mediaMatches matchMedia e) es"
  by (induction es) auto

text \<open>
  Claim C8. For an image whose parent is a \<^verbatim>\<open>PICTURE\<close>, \<^verbatim>\<open>sources\<close> is made of the
  descriptors of the parent's \<^verbatim>\<open>SOURCE\<close> children whose media condition matches (or that have
  none), in document order, followed by the image's own descriptor; when no source matches
  it is the image's own descriptor alone. This holds for either revision.
\<close>

theorem picture_sources:
  "parentElement_tagName img = ''PICTURE'' \<longrightarrow>
     (let element = collectOne_Element new_URL matchMedia img;
          tag = collectOne_Tag a_href matchMedia img;
          matching = filter (\<lambda>e. el_tagName e = ''SOURCE'' \<and> mediaMatches matchMedia e)
                       (parentElement_children img)
      in isPicture element
         \<and> element_info.truncate element = getElementInfo new_URL img
         \<and> sources element =
             Some (map (getElementInfo new_URL) matching @ [element_info.truncate element])
         \<and> (matching = [] \<longrightarrow> sources element = Some [element_info.truncate element])
         \<and> isPicture tag
         \<and> element_info.truncate tag = toObject a_href img
         \<and> sources tag = Some (map (toObject a_href) matching @ [element_info.truncate tag])
         \<and> (matching = [] \<longrightarrow> sources tag = Some [element_info.truncate tag]))"
  by (simp add: collectOne_Element_def collectOne_Tag_def Let_def truncate_extend
      extend_fields filter_SOURCE_media)

theorem picture_sources_witness:
  "map tagName (the (sources (collectOne_Element Some (\<lambda>m. m = ''print'')
     \<lparr>el_tagName = ''IMG'', el_currentSrc = Some ''http://x/a.png'', el_srcset = [],
      el_sizes = [], el_media = None, el_clientWidth = 10, el_clientHeight = 10,
      el_naturalWidth = Some 10, el_naturalHeight = Some 10,
      parentElement_tagName = ''PICTURE'',
      parentElement_children =
        [\<lparr>el_tagName = ''SOURCE'', el_currentSrc = None, el_srcset = ''b.png'',
          el_sizes = [], el_media = Some ''screen'', el_clientWidth = 0, el_clientHeight = 0,
          el_naturalWidth = None, el_naturalHeight = None\<rparr>,
         \<lparr>el_tagName = ''SOURCE'', el_currentSrc = None, el_srcset = ''c.png'',
          el_sizes = [], el_media = Some ''print'', el_clientWidth = 0, el_clientHeight = 0,
          el_naturalWidth = None, el_naturalHeight = None\<rparr>,
         \<lparr>el_tagName = ''IMG'', el_currentSrc = Some ''http://x/a.png'', el_srcset = [],
          el_sizes = [], el_media = None, el_clientWidth = 10, el_clientHeight = 10,
          el_naturalWidth = Some 10, el_naturalHeight = Some 10\<rparr>]\<rparr>
       :: unit tag))) = [''SOURCE'', ''IMG'']
   \<and> map srcset (the (sources (collectOne_Element Some (\<lambda>m. m = ''print'')
     \<lparr>el_tagName = ''IMG'', el_currentSrc = Some ''http://x/a.png'', el_srcset = [],
      el_sizes = [], el_media = None, el_clientWidth = 10, el_clientHeight = 10,
      el_naturalWidth = Some 10, el_naturalHeight = Some 10,
      parentElement_tagName = ''PICTURE'',
      parentElement_children =
        [\<lparr>el_tagName = ''SOURCE'', el_currentSrc = None, el_srcset = ''b.png'',
          el_sizes = [], el_media = Some ''screen'', el_clientWidth = 0, el_clientHeight = 0,
          el_naturalWidth = None, el_naturalHeight = None\<rparr>,
         \<lparr>el_tagName = ''SOURCE'', el_currentSrc = None, el_srcset = ''c.png'',
          el_sizes = [], el_media = Some ''print'', el_clientWidth = 0, el_clientHeight = 0,
          el_naturalWidth = None, el_naturalHeight = None\<rparr>,
         \<lparr>el_tagName = ''IMG'', el_currentSrc = Some ''http://x/a.png'', el_srcset = [],
          el_sizes = [], el_media = None, el_clientWidth = 10, el_clientHeight = 10,
          el_naturalWidth = Some 10, el_naturalHeight = Some 10\<rparr>]\<rparr>
       :: unit tag))) = [''c.png'', []]"
proof -
  let ?img = "\<lparr>el_tagName = ''IMG'', el_currentSrc = Some ''http://x/a.png'', el_srcset = [],
      el_sizes = [], el_media = None, el_clientWidth = 10, el_clientHeight = 10,
      el_naturalWidth = Some 10, el_naturalHeight = Some 10,
      parentElement_tagName = ''PICTURE'',
      parentElement_children =
        [\<lparr>el_tagName = ''SOURCE'', el_currentSrc = None, el_srcset = ''b.png'',
          el_sizes = [], el_media = Some ''screen'', el_clientWidth = 0, el_clientHeight = 0,
          el_naturalWidth = None, el_naturalHeight = None\<rparr>,
         \<lparr>el_tagName = ''SOURCE'', el_currentSrc = None, el_srcset = ''c.png'',
          el_sizes = [], el_media = Some ''print'', el_clientWidth = 0, el_clientHeight = 0,
          el_naturalWidth = None, el_naturalHeight = None\<rparr>,
         \<lparr>el_tagName = ''IMG'', el_currentSrc = Some ''http://x/a.png'', el_srcset = [],
          el_sizes = [], el_media = None, el_clientWidth = 10, el_clientHeight = 10,
          el_naturalWidth = Some 10, el_naturalHeight = Some 10\<rparr>]\<rparr>"
  let ?t = "collectOne_Element Some (\<lambda>m. m = ''print'') ?img :: unit tag"
  have p: "parentElement_tagName ?img = ''PICTURE''" by simp
  from picture_sources [of ?img Some "\<lambda>m. m = ''print''" id] p
  have "sources ?t =
          Some (map (getElementInfo Some)
                  (filter (\<lambda>e. el_tagName e = ''SOURCE'' \<and> mediaMatches (\<lambda>m. m = ''print'') e)
                     (parentElement_children ?img)) @ [element_info.truncate ?t])"
    and "element_info.truncate ?t = getElementInfo Some ?img"
    unfolding Let_def by blast+
  then have "sources ?t =
          Some (map (getElementInfo Some)
                  (filter (\<lambda>e. el_tagName e = ''SOURCE'' \<and> mediaMatches (\<lambda>m. m = ''print'') e)
                     (parentElement_children ?img)) @ [getElementInfo Some ?img])"
    by (simp only:)
  then show ?thesis
    by (simp add: mediaMatches_def getElementInfo_def)
qed


subsection \<open>The pass, one element after the other\<close>

lemma linkNetworkRecord_eq:
  "linkNetworkRecord idx element = element\<lparr>networkRecord := idx (toString (src element))\<rparr>"
  by (cases "sources element") (simp_all add: linkNetworkRecord_def)

lemma link_fields [simp]:
  "isPicture (linkNetworkRecord idx element) = isPicture element"
  "src (linkNetworkRecord idx element) = src element"
  "networkRecord (linkNetworkRecord idx element) = idx (toString (src element))"
  by (simp_all add: linkNetworkRecord_eq)

lemma reduce_step_resolve:
  assumes "k < length heap" "\<not> qualifies idx (heap ! k)"
  shows "reduce_elements page settled idx (k # ks) (heap, collector, calls) =
         reduce_elements page settled idx ks
           (heap[k := linkNetworkRecord idx (heap ! k)], collector @ [k], calls)"
  using assms by (auto simp: Let_def)

lemma reduce_step_load:
  assumes "k < length heap" "qualifies idx (heap ! k)" "k \<in> set settled"
    "page k (src (heap ! k)) = Load_event w h"
  shows "reduce_elements page settled idx (k # ks) (heap, collector, calls) =
         reduce_elements page settled idx ks
           (heap[k := Object_assign (linkNetworkRecord idx (heap ! k)) (NaturalSize w h)],
            collector @ [k], calls @ [(k, src (heap ! k))])"
  using assms
  by (auto simp: Let_def fetchElementWithSizeInformation_def settleSize_def
      determineNaturalSize_def)

lemma reduce_step_error:
  assumes "k < length heap" "qualifies idx (heap ! k)" "k \<in> set settled"
    "page k (src (heap ! k)) = Error_event e"
  shows "reduce_elements page settled idx (k # ks) (heap, collector, calls) =
         (calls @ [(k, src (heap ! k))], Rejected e)"
  using assms
  by (auto simp: Let_def fetchElementWithSizeInformation_def settleSize_def
      determineNaturalSize_def)

lemma reduce_step_pending:
  assumes "k < length heap" "qualifies idx (heap ! k)" "k \<notin> set settled"
  shows "reduce_elements page settled idx (k # ks) (heap, collector, calls) =
         (calls @ [(k, src (heap ! k))], Pending)"
  using assms
  by (auto simp: Let_def fetchElementWithSizeInformation_def)


lemma reach_Suc:
  fixes Q A :: "nat \<Rightarrow> bool"
  assumes "k < i"
  shows "(\<forall>j. k \<le> j \<and> j < i \<and> Q j \<longrightarrow> A j) \<longleftrightarrow>
         (Q k \<longrightarrow> A k) \<and> (\<forall>j. Suc k \<le> j \<and> j < i \<and> Q j \<longrightarrow> A j)"
proof
  assume l: "\<forall>j. k \<le> j \<and> j < i \<and> Q j \<longrightarrow> A j"
  show "(Q k \<longrightarrow> A k) \<and> (\<forall>j. Suc k \<le> j \<and> j < i \<and> Q j \<longrightarrow> A j)"
    using l assms by (simp add: Suc_le_eq)
next
  assume r: "(Q k \<longrightarrow> A k) \<and> (\<forall>j. Suc k \<le> j \<and> j < i \<and> Q j \<longrightarrow> A j)"
  show "\<forall>j. k \<le> j \<and> j < i \<and> Q j \<longrightarrow> A j"
  proof (intro allI impI)
    fix j assume j: "k \<le> j \<and> j < i \<and> Q j"
    show "A j"
    proof (cases "j = k")
      case True with r j show ?thesis by simp
    next
      case False
      with j have "Suc k \<le> j" by simp
      with r j show ?thesis by blast
    qed
  qed
qed

lemma filter_reach:
  fixes Q A :: "nat \<Rightarrow> bool"
  shows "filter (\<lambda>i. Q i \<and> (\<forall>j. k \<le> j \<and> j < i \<and> Q j \<longrightarrow> A j)) [Suc k..<n] =
     (if Q k \<longrightarrow> A k
      then filter (\<lambda>i. Q i \<and> (\<forall>j. Suc k \<le> j \<and> j < i \<and> Q j \<longrightarrow> A j)) [Suc k..<n]
      else [])"
proof (cases "Q k \<longrightarrow> A k")
  case True
  have "filter (\<lambda>i. Q i \<and> (\<forall>j. k \<le> j \<and> j < i \<and> Q j \<longrightarrow> A j)) [Suc k..<n] =
        filter (\<lambda>i. Q i \<and> (\<forall>j. Suc k \<le> j \<and> j < i \<and> Q j \<longrightarrow> A j)) [Suc k..<n]"
  proof (rule filter_cong [OF refl])
    fix i assume "i \<in> set [Suc k..<n]"
    then have "k < i" by simp
    from reach_Suc [OF this, of Q A] True
    show "(Q i \<and> (\<forall>j. k \<le> j \<and> j < i \<and> Q j \<longrightarrow> A j)) =
          (Q i \<and> (\<forall>j. Suc k \<le> j \<and> j < i \<and> Q j \<longrightarrow> A j))" by simp
  qed
  with True show ?thesis by simp
next
  case False
  have "filter (\<lambda>i. Q i \<and> (\<forall>j. k \<le> j \<and> j < i \<and> Q j \<longrightarrow> A j)) [Suc k..<n] = []"
  proof (simp only: filter_empty_conv, intro ballI)
    fix i assume "i \<in> set [Suc k..<n]"
    then have "k < i" by simp
    from reach_Suc [OF this, of Q A] False
    show "\<not> (Q i \<and> (\<forall>j. k \<le> j \<and> j < i \<and> Q j \<longrightarrow> A j))" by simp
  qed
  with False show ?thesis by simp
qed

lemma filter_reach_Cons:
  fixes Q A :: "nat \<Rightarrow> bool"
  assumes "k < n"
  shows "filter (\<lambda>i. Q i \<and> (\<forall>j. k \<le> j \<and> j < i \<and> Q j \<longrightarrow> A j)) [k..<n] =
     (if Q k then [k] else []) @
     (if Q k \<longrightarrow> A k
      then filter (\<lambda>i. Q i \<and> (\<forall>j. Suc k \<le> j \<and> j < i \<and> Q j \<longrightarrow> A j)) [Suc k..<n]
      else [])"
proof -
  have "[k..<n] = k # [Suc k..<n]" using assms by (simp add: upt_conv_Cons)
  then have "filter (\<lambda>i. Q i \<and> (\<forall>j. k \<le> j \<and> j < i \<and> Q j \<longrightarrow> A j)) [k..<n] =
     (if Q k then [k] else []) @
     filter (\<lambda>i. Q i \<and> (\<forall>j. k \<le> j \<and> j < i \<and> Q j \<longrightarrow> A j)) [Suc k..<n]"
    by simp
  then show ?thesis by (simp only: filter_reach [of Q k A n])
qed

lemma reduce_elements_upt:
  fixes page :: "'e page" and heap :: "'v heap"
  assumes "k \<le> n" "length heap = n" "length elements = n"
    "\<forall>i. k \<le> i \<and> i < n \<longrightarrow> heap ! i = elements ! i"
  shows "reduce_elements page settled idx [k..<n] (heap, collector, calls) =
    (calls @ map (\<lambda>i. (i, src (elements ! i)))
       (filter (\<lambda>i. qualifies idx (elements ! i) \<and>
                 (\<forall>j. k \<le> j \<and> j < i \<and> qualifies idx (elements ! j) \<longrightarrow>
                        answered page settled j (elements ! j))) [k..<n]),
     (case find (\<lambda>i. qualifies idx (elements ! i) \<and> \<not> answered page settled i (elements ! i))
             [k..<n] of
        None \<Rightarrow>
          Fulfilled (map (\<lambda>i. if i < k then heap ! i else enriched page idx i (elements ! i))
                       [0..<n],
                     collector @ [k..<n])
      | Some j \<Rightarrow>
          (if j \<in> set settled
           then (case page j (src (elements ! j)) of
                   Error_event e \<Rightarrow> Rejected e
                 | Load_event w h \<Rightarrow> Pending)
           else Pending)))"
proof -
  define Q where "Q = (\<lambda>i. qualifies idx (elements ! i))"
  define A where "A = (\<lambda>i. answered page settled i (elements ! i))"
  define final where "final = (\<lambda>i. enriched page idx i (elements ! i))"
  define calls_from where "calls_from = (\<lambda>k. map (\<lambda>i. (i, src (elements ! i)))
       (filter (\<lambda>i. Q i \<and> (\<forall>j. k \<le> j \<and> j < i \<and> Q j \<longrightarrow> A j)) [k..<n]))"
  define stop where "stop = (\<lambda>j. if j \<in> set settled
           then (case page j (src (elements ! j)) of
                   Error_event e \<Rightarrow> Rejected e
                 | Load_event w h \<Rightarrow> Pending)
           else (Pending :: ('e, 'v tag list \<times> nat list) promise))"
  define rest where "rest = (\<lambda>k heap collector.
      (case find (\<lambda>i. Q i \<and> \<not> A i) [k..<n] of
        None \<Rightarrow> Fulfilled (map (\<lambda>i. if i < k then heap ! i else final i) [0..<n],
                           collector @ [k..<n])
      | Some j \<Rightarrow> stop j))"
  have main: "reduce_elements page settled idx [k..<n] (heap, collector, calls) =
          (calls @ calls_from k, rest k heap collector)"
    using assms
  proof (induction "n - k" arbitrary: k heap collector calls)
    case 0
    then have "k = n" by simp
    moreover have "map (\<lambda>i. if i < n then heap ! i else final i) [0..<n] = heap"
      using "0.prems"(2) by (auto intro: nth_equalityI)
    ultimately show ?case by (simp add: calls_from_def rest_def)
  next
    case (Suc d)
    then have kn: "k < n" by simp
    have upt: "[k..<n] = k # [Suc k..<n]" using kn by (simp add: upt_conv_Cons)
    have hk: "heap ! k = elements ! k" using Suc.prems(4) kn by simp
    have klen: "k < length heap" using Suc.prems(2) kn by simp
    have ih: "reduce_elements page settled idx [Suc k..<n] (heap', collector', calls') =
                (calls' @ calls_from (Suc k), rest (Suc k) heap' collector')"
      if "length heap' = n" "\<forall>i. Suc k \<le> i \<and> i < n \<longrightarrow> heap' ! i = elements ! i"
      for heap' collector' calls'
      using Suc.hyps(2) Suc.prems(3) kn that
      by (intro Suc.hyps(1)) auto
    have calls_eq: "calls_from k = (if Q k then [(k, src (elements ! k))] else []) @
            (if Q k \<longrightarrow> A k then calls_from (Suc k) else [])"
      unfolding calls_from_def by (simp only: filter_reach_Cons [OF kn, of Q A]) simp
    have find_eq: "find (\<lambda>i. Q i \<and> \<not> A i) [k..<n] =
            (if Q k \<and> \<not> A k then Some k else find (\<lambda>i. Q i \<and> \<not> A i) [Suc k..<n])"
      unfolding upt by simp
    have heap_eq: "map (\<lambda>i. if i < Suc k then heap[k := final k] ! i else final i) [0..<n]
              = map (\<lambda>i. if i < k then heap ! i else final i) [0..<n]"
      using klen by (auto simp: less_Suc_eq nth_list_update)
    have rest_ok: "rest k heap collector = rest (Suc k) (heap[k := final k]) (collector @ [k])"
      if "Q k \<longrightarrow> A k"
    proof -
      from that have "find (\<lambda>i. Q i \<and> \<not> A i) [k..<n] = find (\<lambda>i. Q i \<and> \<not> A i) [Suc k..<n]"
        unfolding find_eq by (cases "Q k"; cases "A k"; simp)
      moreover have "collector @ [k..<n] = (collector @ [k]) @ [Suc k..<n]"
        using upt by simp
      ultimately show ?thesis by (simp only: rest_def heap_eq)
    qed
    have rest_stop: "rest k heap collector = stop k" if "Q k" "\<not> A k"
      using that unfolding rest_def find_eq by (cases "Q k"; cases "A k"; simp)
    have len1: "length (heap[k := x]) = n" for x using Suc.prems(2) by simp
    have same1: "\<forall>i. Suc k \<le> i \<and> i < n \<longrightarrow> heap[k := x] ! i = elements ! i" for x
      using Suc.prems(4) by auto
    show ?case
    proof (cases "Q k")
      case False
      then have nq: "\<not> qualifies idx (heap ! k)" using hk by (simp add: Q_def)
      have fk: "final k = linkNetworkRecord idx (heap ! k)"
        using nq hk unfolding final_def by auto
      have "reduce_elements page settled idx [k..<n] (heap, collector, calls) =
            reduce_elements page settled idx [Suc k..<n] (heap[k := final k], collector @ [k], calls)"
        unfolding upt fk using klen nq by (rule reduce_step_resolve)
      also have "\<dots> = (calls @ calls_from (Suc k), rest (Suc k) (heap[k := final k]) (collector @ [k]))"
        using len1 same1 by (rule ih)
      finally show ?thesis using False by (simp add: calls_eq rest_ok)
    next
      case True
      then have q: "qualifies idx (heap ! k)" using hk by (simp add: Q_def)
      show ?thesis
      proof (cases "k \<in> set settled")
        case notin: False
        then have "\<not> A k" by (simp add: A_def)
        moreover have "stop k = Pending" using notin by (simp add: stop_def)
        moreover have "reduce_elements page settled idx [k..<n] (heap, collector, calls) =
            (calls @ [(k, src (heap ! k))], Pending)"
          unfolding upt using klen q notin by (rule reduce_step_pending)
        ultimately show ?thesis using True hk by (simp add: calls_eq rest_stop)
      next
        case isin: True
        show ?thesis
        proof (cases "page k (src (heap ! k))")
          case (Error_event e)
          then have "\<not> A k" using hk by (simp add: A_def)
          moreover have "stop k = Rejected e" using isin Error_event hk by (simp add: stop_def)
          moreover have "reduce_elements page settled idx [k..<n] (heap, collector, calls) =
              (calls @ [(k, src (heap ! k))], Rejected e)"
            unfolding upt using klen q isin Error_event by (rule reduce_step_error)
          ultimately show ?thesis using True hk by (simp add: calls_eq rest_stop)
        next
          case (Load_event w h)
          then have a: "A k" using hk isin by (simp add: A_def)
          have fk: "final k = Object_assign (linkNetworkRecord idx (heap ! k)) (NaturalSize w h)"
            using q hk Load_event unfolding final_def by auto
          have "reduce_elements page settled idx [k..<n] (heap, collector, calls) =
            reduce_elements page settled idx [Suc k..<n]
              (heap[k := final k], collector @ [k], calls @ [(k, src (heap ! k))])"
            unfolding upt fk using klen q isin Load_event by (rule reduce_step_load)
          also have "\<dots> = ((calls @ [(k, src (heap ! k))]) @ calls_from (Suc k),
                            rest (Suc k) (heap[k := final k]) (collector @ [k]))"
            using len1 same1 by (rule ih)
          finally show ?thesis using True a hk by (simp add: calls_eq rest_ok)
        qed
      qed
    qed
  qed
  show ?thesis
    unfolding main calls_from_def rest_def stop_def Q_def A_def final_def ..
qed

subsection \<open>The pass, all elements at once\<close>

lemma tags_map_step:
  assumes "k < length heap"
  shows "tags_map idx (k # ks) (heap, calls) =
     (let heap1 = heap[k := linkNetworkRecord idx (heap ! k)];
          r = tags_map idx ks
                (heap1, if qualifies idx (heap ! k) then calls @ [(k, src (heap ! k))] else calls)
      in (fst r, (if qualifies idx (heap ! k) then SizePromise k (src (heap ! k))
                  else Promise_resolve k) # snd r))"
  using assms
  by (auto simp: Let_def fetchTagWithSizeInformation_def split: prod.splits)

lemma tags_map_upt:
  fixes heap :: "'v heap"
  assumes "k \<le> n" "length heap = n" "length tags = n"
    "\<forall>i. k \<le> i \<and> i < n \<longrightarrow> heap ! i = tags ! i"
  shows "tags_map idx [k..<n] (heap, calls) =
     ((map (\<lambda>i. if i < k then heap ! i else linkNetworkRecord idx (tags ! i)) [0..<n],
       calls @ map (\<lambda>i. (i, src (tags ! i))) (filter (\<lambda>i. qualifies idx (tags ! i)) [k..<n])),
      map (\<lambda>i. if qualifies idx (tags ! i) then SizePromise i (src (tags ! i))
               else Promise_resolve i) [k..<n])"
  using assms
proof (induction "n - k" arbitrary: k heap calls)
  case 0
  then have "k = n" by simp
  moreover have "map (\<lambda>i. if i < n then heap ! i else linkNetworkRecord idx (tags ! i)) [0..<n]
                 = heap"
    using "0.prems"(2) by (auto intro: nth_equalityI)
  ultimately show ?case by simp
next
  case (Suc d)
  then have kn: "k < n" by simp
  have upt: "[k..<n] = k # [Suc k..<n]" using kn by (simp add: upt_conv_Cons)
  have hk: "heap ! k = tags ! k" using Suc.prems(4) kn by simp
  have klen: "k < length heap" using Suc.prems(2) kn by simp
  let ?heap1 = "heap[k := linkNetworkRecord idx (heap ! k)]"
  let ?calls1 = "if qualifies idx (heap ! k) then calls @ [(k, src (heap ! k))] else calls"
  have ih: "tags_map idx [Suc k..<n] (?heap1, ?calls1) =
     ((map (\<lambda>i. if i < Suc k then ?heap1 ! i else linkNetworkRecord idx (tags ! i)) [0..<n],
       ?calls1 @ map (\<lambda>i. (i, src (tags ! i)))
                   (filter (\<lambda>i. qualifies idx (tags ! i)) [Suc k..<n])),
      map (\<lambda>i. if qualifies idx (tags ! i) then SizePromise i (src (tags ! i))
               else Promise_resolve i) [Suc k..<n])"
    using Suc.hyps(2) Suc.prems kn by (intro Suc.hyps(1)) auto
  have heap_eq: "map (\<lambda>i. if i < Suc k then ?heap1 ! i else linkNetworkRecord idx (tags ! i)) [0..<n]
        = map (\<lambda>i. if i < k then heap ! i else linkNetworkRecord idx (tags ! i)) [0..<n]"
    using klen hk by (auto simp: less_Suc_eq nth_list_update)
  show ?case
    unfolding upt tags_map_step [OF klen] Let_def ih heap_eq using hk by simp
qed

lemma find_snoc:
  "find P (xs @ [x]) = (case find P xs of None \<Rightarrow> (if P x then Some x else None) | Some y \<Rightarrow> Some y)"
  by (induction xs) auto

lemma settle_event_noop:
  assumes "\<not> (s < length ps \<and> s < length states \<and> states ! s = Pending)"
  shows "settle_event page ps (heap, states, fr) s = (heap, states, fr)"
  using assms by (auto simp: settle_event_def)

lemma settle_event_load:
  assumes "s < length ps" "s < length states" "states ! s = Pending"
    "ps ! s = SizePromise t url" "page t url = Load_event w h"
  shows "settle_event page ps (heap, states, fr) s =
         (heap[t := Object_assign (heap ! t) (NaturalSize w h)], states[s := Fulfilled t], fr)"
  using assms by (simp add: settle_event_def settleSize_def determineNaturalSize_def)

lemma settle_event_error:
  assumes "s < length ps" "s < length states" "states ! s = Pending"
    "ps ! s = SizePromise t url" "page t url = Error_event e"
  shows "settle_event page ps (heap, states, fr) s =
         (heap, states[s := Rejected e], (case fr of None \<Rightarrow> Some e | Some e0 \<Rightarrow> Some e0))"
  using assms by (simp add: settle_event_def settleSize_def determineNaturalSize_def)


lemma settle_fold:
  fixes page :: "'e page" and heap1 :: "'v heap" and Qf :: "nat \<Rightarrow> bool"
    and u :: "nat \<Rightarrow> string option"
  assumes len: "length heap1 = n"
    and ps: "ps = map (\<lambda>i. if Qf i then SizePromise i (u i) else Promise_resolve i) [0..<n]"
  shows "foldl (settle_event page ps) (heap1, map initial_state ps, None) settled =
     (map (\<lambda>i. if Qf i \<and> i \<in> set settled
               then (case page i (u i) of
                       Load_event w h \<Rightarrow> Object_assign (heap1 ! i) (NaturalSize w h)
                     | Error_event e \<Rightarrow> heap1 ! i)
               else heap1 ! i) [0..<n],
      map (\<lambda>i. if Qf i
               then (if i \<in> set settled
                     then (case page i (u i) of
                             Load_event w h \<Rightarrow> Fulfilled i
                           | Error_event e \<Rightarrow> Rejected e)
                     else Pending)
               else Fulfilled i) [0..<n],
      (case find (\<lambda>s. s < n \<and> Qf s \<and> (\<exists>e. page s (u s) = Error_event e)) settled of
         None \<Rightarrow> None
       | Some s \<Rightarrow> (case page s (u s) of Error_event e \<Rightarrow> Some e | Load_event w h \<Rightarrow> None)))"
proof -
  define H where "H = (\<lambda>S. map (\<lambda>i. if Qf i \<and> i \<in> S
               then (case page i (u i) of
                       Load_event w h \<Rightarrow> Object_assign (heap1 ! i) (NaturalSize w h)
                     | Error_event e \<Rightarrow> heap1 ! i)
               else heap1 ! i) [0..<n])"
  define ST :: "nat set \<Rightarrow> ('e, nat) promise list" where "ST = (\<lambda>S. map (\<lambda>i. if Qf i
               then (if i \<in> S
                     then (case page i (u i) of
                             Load_event w h \<Rightarrow> Fulfilled i
                           | Error_event e \<Rightarrow> Rejected e)
                     else Pending)
               else Fulfilled i) [0..<n])"
  define R where "R = (\<lambda>s. s < n \<and> Qf s \<and> (\<exists>e. page s (u s) = Error_event e))"
  define FR where "FR = (\<lambda>xs. case find R xs of
         None \<Rightarrow> None
       | Some s \<Rightarrow> (case page s (u s) of Error_event e \<Rightarrow> Some e | Load_event w h \<Rightarrow> None))"
  have lenps: "length ps = n" by (simp add: ps)
  have lenH: "length (H S) = n" for S by (simp add: H_def)
  have lenST: "length (ST S) = n" for S by (simp add: ST_def)
  have main: "foldl (settle_event page ps) (heap1, map initial_state ps, None) xs =
              (H (set xs), ST (set xs), FR xs)" for xs
  proof (induction xs rule: rev_induct)
    case Nil
    have "H {} = heap1" using len by (auto simp: H_def intro: nth_equalityI)
    moreover have "ST {} = map initial_state ps"
      by (simp add: ST_def ps initial_state_def)
    moreover have "FR [] = None" by (simp add: FR_def)
    ultimately show ?case by simp
  next
    case (snoc x xs)
    have fold: "foldl (settle_event page ps) (heap1, map initial_state ps, None) (xs @ [x]) =
          settle_event page ps (H (set xs), ST (set xs), FR xs) x"
      by (simp add: snoc.IH)
    show ?case
    proof (cases "x < n \<and> Qf x \<and> x \<notin> set xs")
      case False
      have "\<not> (x < length ps \<and> x < length (ST (set xs)) \<and> ST (set xs) ! x = Pending)"
        using False by (auto simp: lenps ST_def split: image_event.splits)
      then have "settle_event page ps (H (set xs), ST (set xs), FR xs) x =
                 (H (set xs), ST (set xs), FR xs)"
        by (rule settle_event_noop)
      moreover have "H (set (xs @ [x])) = H (set xs)"
        using False by (auto simp: H_def)
      moreover have "ST (set (xs @ [x])) = ST (set xs)"
        using False by (auto simp: ST_def)
      moreover have "FR (xs @ [x]) = FR xs"
      proof (cases "R x")
        case True
        then have "x \<in> set xs" using False by (auto simp: R_def)
        with True have "find R xs \<noteq> None" by (auto simp: find_None_iff)
        then show ?thesis by (auto simp: FR_def find_snoc)
      next
        case False
        then show ?thesis by (auto simp: FR_def find_snoc split: option.splits)
      qed
      ultimately show ?thesis unfolding fold by simp
    next
      case True
      then have xn: "x < n" and qx: "Qf x" and nx: "x \<notin> set xs" by simp_all
      have pend: "ST (set xs) ! x = Pending" using xn qx nx by (simp add: ST_def)
      have psx: "ps ! x = SizePromise x (u x)" using xn qx by (simp add: ps)
      have Hx: "H (set xs) ! x = heap1 ! x" using xn nx by (simp add: H_def)
      show ?thesis
      proof (cases "page x (u x)")
        case (Load_event w h)
        have "settle_event page ps (H (set xs), ST (set xs), FR xs) x =
               ((H (set xs))[x := Object_assign (H (set xs) ! x) (NaturalSize w h)],
                (ST (set xs))[x := Fulfilled x], FR xs)"
          using xn pend psx Load_event by (intro settle_event_load) (simp_all add: lenps lenST)
        moreover have "(H (set xs))[x := Object_assign (H (set xs) ! x) (NaturalSize w h)] =
                       H (set (xs @ [x]))"
          unfolding Hx using xn qx Load_event
          by (auto simp: H_def nth_list_update intro!: nth_equalityI)
        moreover have "(ST (set xs))[x := Fulfilled x] = ST (set (xs @ [x]))"
          using xn qx Load_event
          by (auto simp: ST_def nth_list_update intro!: nth_equalityI)
        moreover have "FR (xs @ [x]) = FR xs"
          using Load_event by (auto simp: FR_def find_snoc R_def split: option.splits)
        ultimately show ?thesis unfolding fold by simp
      next
        case (Error_event e)
        have "settle_event page ps (H (set xs), ST (set xs), FR xs) x =
               (H (set xs), (ST (set xs))[x := Rejected e],
                (case FR xs of None \<Rightarrow> Some e | Some e0 \<Rightarrow> Some e0))"
          using xn pend psx Error_event by (intro settle_event_error) (simp_all add: lenps lenST)
        moreover have "H (set xs) = H (set (xs @ [x]))"
          using xn qx Error_event by (auto simp: H_def)
        moreover have "(ST (set xs))[x := Rejected e] = ST (set (xs @ [x]))"
          using xn qx Error_event
          by (auto simp: ST_def nth_list_update intro!: nth_equalityI)
        moreover have "(case FR xs of None \<Rightarrow> Some e | Some e0 \<Rightarrow> Some e0) = FR (xs @ [x])"
        proof (cases "find R xs")
          case None
          moreover have "R x" using xn qx Error_event by (simp add: R_def)
          ultimately show ?thesis using Error_event by (simp add: FR_def find_snoc)
        next
          case (Some s)
          then have "R s" by (auto simp: find_Some_iff)
          then obtain e' where "page s (u s) = Error_event e'" by (auto simp: R_def)
          with Some show ?thesis by (simp add: FR_def find_snoc)
        qed
        ultimately show ?thesis unfolding fold by simp
      qed
    qed
  qed
  show ?thesis unfolding main H_def ST_def FR_def R_def ..
qed


subsection \<open>What the pass returns\<close>

lemma afterPass_closed:
  fixes page :: "'e page" and elements :: "'v tag list"
  shows "afterPass page settled networkRecords (Fulfilled elements) =
    (map (\<lambda>i. (i, src (elements ! i)))
       (filter (\<lambda>i. qualifies (indexedNetworkRecords networkRecords) (elements ! i) \<and>
                 (\<forall>j. j < i \<and> qualifies (indexedNetworkRecords networkRecords) (elements ! j) \<longrightarrow>
                        answered page settled j (elements ! j))) [0..<length elements]),
     (case find (\<lambda>i. qualifies (indexedNetworkRecords networkRecords) (elements ! i) \<and>
                     \<not> answered page settled i (elements ! i))
             [0..<length elements] of
        None \<Rightarrow>
          Fulfilled (map (\<lambda>i. enriched page (indexedNetworkRecords networkRecords) i (elements ! i))
                       [0..<length elements],
                     [0..<length elements])
      | Some j \<Rightarrow>
          (if j \<in> set settled
           then (case page j (src (elements ! j)) of
                   Error_event e \<Rightarrow> Rejected e
                 | Load_event w h \<Rightarrow> Pending)
           else Pending)))"
  using reduce_elements_upt [of 0 "length elements" elements elements page settled
      "indexedNetworkRecords networkRecords" "[]" "[]"]
  by (simp add: afterPass_def cong: option.case_cong)

lemma concat_singletons: "concat (map (\<lambda>i. [i]) xs) = xs"
  by (induction xs) auto

lemma afterPass_all_closed:
  fixes page :: "'e page" and tags :: "'v tag list"
  shows "afterPass_all page settled networkRecords (Fulfilled tags) =
    (map (\<lambda>i. (i, src (tags ! i)))
       (filter (\<lambda>i. qualifies (indexedNetworkRecords_pick networkRecords) (tags ! i))
          [0..<length tags]),
     (case find (\<lambda>s. s < length tags \<and>
                     qualifies (indexedNetworkRecords_pick networkRecords) (tags ! s) \<and>
                     (\<exists>e. page s (src (tags ! s)) = Error_event e)) settled of
        Some s \<Rightarrow>
          (case page s (src (tags ! s)) of
             Error_event e \<Rightarrow> Rejected e
           | Load_event w h \<Rightarrow> Pending)
      | None \<Rightarrow>
          if \<exists>i < length tags. qualifies (indexedNetworkRecords_pick networkRecords) (tags ! i) \<and>
                i \<notin> set settled
          then Pending
          else Fulfilled (map (\<lambda>i. enriched page (indexedNetworkRecords_pick networkRecords) i
                                     (tags ! i)) [0..<length tags],
                          [0..<length tags])))"
proof -
  define idx where "idx = indexedNetworkRecords_pick networkRecords"
  define n where "n = length tags"
  define Q where "Q = (\<lambda>i. qualifies idx (tags ! i))"
  define u where "u = (\<lambda>i. src (tags ! i))"
  define heap1 where "heap1 = map (\<lambda>i. linkNetworkRecord idx (tags ! i)) [0..<n]"
  define ps where "ps = map (\<lambda>i. if Q i then SizePromise i (u i) else Promise_resolve i) [0..<n]"
  define calls where "calls = map (\<lambda>i. (i, u i)) (filter Q [0..<n])"
  define R where "R = (\<lambda>s. s < n \<and> Q s \<and> (\<exists>e. page s (u s) = Error_event e))"
  define H where "H = map (\<lambda>i. if Q i \<and> i \<in> set settled
               then (case page i (u i) of
                       Load_event w h \<Rightarrow> Object_assign (heap1 ! i) (NaturalSize w h)
                     | Error_event e \<Rightarrow> heap1 ! i)
               else heap1 ! i) [0..<n]"
  define ST :: "('e, nat) promise list" where "ST = map (\<lambda>i. if Q i
               then (if i \<in> set settled
                     then (case page i (u i) of
                             Load_event w h \<Rightarrow> Fulfilled i
                           | Error_event e \<Rightarrow> Rejected e)
                     else Pending)
               else Fulfilled i) [0..<n]"
  define FR where "FR = (case find R settled of
         None \<Rightarrow> None
       | Some s \<Rightarrow> (case page s (u s) of Error_event e \<Rightarrow> Some e | Load_event w h \<Rightarrow> None))"
  have tm: "tags_map idx [0..<n] (tags, []) = ((heap1, calls), ps)"
    unfolding heap1_def calls_def ps_def Q_def u_def n_def
    using tags_map_upt [of 0 "length tags" tags tags idx "[]"]
    by simp
  have len1: "length heap1 = n" by (simp add: heap1_def)
  have fold: "foldl (settle_event page ps) (heap1, map initial_state ps, None) settled =
              (H, ST, FR)"
    unfolding H_def ST_def FR_def R_def
    by (rule settle_fold [OF len1 ps_def])
  have ap: "afterPass_all page settled networkRecords (Fulfilled tags) =
            (calls, Promise_all (H, ST, FR))"
    by (simp add: afterPass_all_def idx_def [symmetric] n_def [symmetric] tm fold)
  have pa: "Promise_all (H, ST, FR) =
     (case find R settled of
        Some s \<Rightarrow>
          (case page s (u s) of
             Error_event e \<Rightarrow> Rejected e
           | Load_event w h \<Rightarrow> Pending)
      | None \<Rightarrow>
          if \<exists>i < n. Q i \<and> i \<notin> set settled
          then Pending
          else Fulfilled (map (\<lambda>i. enriched page idx i (tags ! i)) [0..<n], [0..<n]))"
  proof (cases "find R settled")
    case (Some s)
    then have "R s" by (auto simp: find_Some_iff)
    then obtain e where "page s (u s) = Error_event e" by (auto simp: R_def)
    with Some show ?thesis by (simp add: Promise_all_def FR_def)
  next
    case None
    then have noR: "\<And>s. s \<in> set settled \<Longrightarrow> \<not> R s" by (auto simp: find_None_iff)
    have fr: "FR = None" using None by (simp add: FR_def)
    have pend: "Pending \<in> set ST \<longleftrightarrow> (\<exists>i < n. Q i \<and> i \<notin> set settled)"
      by (auto simp: ST_def split: image_event.splits if_splits)
    show ?thesis
    proof (cases "\<exists>i < n. Q i \<and> i \<notin> set settled")
      case True
      with pend fr None show ?thesis by (simp add: Promise_all_def)
    next
      case False
      then have all: "\<And>i. i < n \<Longrightarrow> Q i \<Longrightarrow> i \<in> set settled" by blast
      have load: "\<exists>w h. page i (u i) = Load_event w h" if "i < n" "Q i" for i
      proof (cases "page i (u i)")
        case (Error_event e)
        with that have "R i" by (auto simp: R_def)
        with noR all that show ?thesis by blast
      qed simp
      have stv: "(if Q i
               then (if i \<in> set settled
                     then (case page i (u i) of
                             Load_event w h \<Rightarrow> Fulfilled i
                           | Error_event e \<Rightarrow> Rejected e)
                     else Pending)
               else Fulfilled i) = (Fulfilled i :: ('e, nat) promise)" if "i < n" for i
      proof (cases "Q i")
        case True
        from load [OF that True] obtain w h where "page i (u i) = Load_event w h" by blast
        with True all [OF that True] show ?thesis by simp
      qed simp
      have st: "ST = map Fulfilled [0..<n]"
        unfolding ST_def using stv by simp
      have vals: "concat (map (\<lambda>p. case p of Fulfilled tag \<Rightarrow> [tag] | Rejected e \<Rightarrow> []
                                      | Pending \<Rightarrow> []) ST) = [0..<n]"
        unfolding st by (simp add: comp_def concat_singletons)
      have hv: "(if Q i \<and> i \<in> set settled
               then (case page i (u i) of
                       Load_event w h \<Rightarrow> Object_assign (heap1 ! i) (NaturalSize w h)
                     | Error_event e \<Rightarrow> heap1 ! i)
               else heap1 ! i) = enriched page idx i (tags ! i)" if "i < n" for i
      proof (cases "Q i")
        case True
        from load [OF that True] obtain w h where "page i (u i) = Load_event w h" by blast
        with True all [OF that True] that show ?thesis
          by (simp add: heap1_def Q_def u_def)
      next
        case False
        with that show ?thesis by (auto simp: heap1_def Q_def)
      qed
      have heap: "H = map (\<lambda>i. enriched page idx i (tags ! i)) [0..<n]"
        unfolding H_def using hv by simp
      from False pend fr None show ?thesis
        by (simp add: Promise_all_def vals heap)
    qed
  qed
  show ?thesis
    unfolding ap pa calls_def R_def Q_def u_def idx_def n_def ..
qed


lemma afterPass_Fulfilled_iff:
  fixes page :: "'e page" and elements :: "'v tag list"
  shows "snd (afterPass page settled networkRecords (Fulfilled elements)) = Fulfilled (heap', out)
     \<longleftrightarrow> (\<forall>i < length elements.
            qualifies (indexedNetworkRecords networkRecords) (elements ! i) \<longrightarrow>
            answered page settled i (elements ! i))
        \<and> out = [0..<length elements]
        \<and> heap' = map (\<lambda>i. enriched page (indexedNetworkRecords networkRecords) i (elements ! i))
                    [0..<length elements]"
proof -
  define P where "P = (\<lambda>i. qualifies (indexedNetworkRecords networkRecords) (elements ! i) \<and>
                     \<not> answered page settled i (elements ! i))"
  have all: "(\<forall>i < length elements.
            qualifies (indexedNetworkRecords networkRecords) (elements ! i) \<longrightarrow>
            answered page settled i (elements ! i)) \<longleftrightarrow> find P [0..<length elements] = None"
    unfolding find_None_iff P_def by auto
  show ?thesis
  proof (cases "find P [0..<length elements]")
    case None
    then show ?thesis
      unfolding all afterPass_closed P_def [symmetric] by auto
  next
    case (Some j)
    then show ?thesis
      unfolding all afterPass_closed P_def [symmetric]
      by (auto split: image_event.splits)
  qed
qed

lemma afterPass_all_Fulfilled_iff:
  fixes page :: "'e page" and tags :: "'v tag list"
  shows "snd (afterPass_all page settled networkRecords (Fulfilled tags)) = Fulfilled (heap', out)
     \<longleftrightarrow> (\<forall>i < length tags.
            qualifies (indexedNetworkRecords_pick networkRecords) (tags ! i) \<longrightarrow>
            answered page settled i (tags ! i))
        \<and> out = [0..<length tags]
        \<and> heap' = map (\<lambda>i. enriched page (indexedNetworkRecords_pick networkRecords) i (tags ! i))
                    [0..<length tags]"
proof -
  define R where "R = (\<lambda>s. s < length tags \<and>
                     qualifies (indexedNetworkRecords_pick networkRecords) (tags ! s) \<and>
                     (\<exists>e. page s (src (tags ! s)) = Error_event e))"
  define U where "U \<longleftrightarrow> (\<exists>i < length tags.
       qualifies (indexedNetworkRecords_pick networkRecords) (tags ! i) \<and> i \<notin> set settled)"
  have all: "(\<forall>i < length tags.
            qualifies (indexedNetworkRecords_pick networkRecords) (tags ! i) \<longrightarrow>
            answered page settled i (tags ! i)) \<longleftrightarrow> find R settled = None \<and> \<not> U"
  proof -
    have "(\<exists>w h. page i u = Load_event w h) \<longleftrightarrow> \<not> (\<exists>e. page i u = Error_event e)" for i u
      by (cases "page i u") auto
    then show ?thesis unfolding find_None_iff R_def U_def by blast
  qed
  show ?thesis
  proof (cases "find R settled")
    case None
    then show ?thesis
      unfolding all afterPass_all_closed R_def [symmetric] U_def [symmetric] by auto
  next
    case (Some j)
    then show ?thesis
      unfolding all afterPass_all_closed R_def [symmetric] U_def [symmetric]
      by (auto split: image_event.splits)
  qed
qed

text \<open>
  Claim C2. Whenever the pass returns a sequence, that sequence has the length of the input
  and its element at each position is the very object that the input has at that position,
  enriched. The pass returns one exactly when the request of every qualifying element is
  answered with a loaded image. This holds for the \<^verbatim>\<open>reduce\<close> revision and for the
  \<^verbatim>\<open>Promise.all\<close> revision, and in the latter the outcome is the same for any two orders of
  settlement of the same calls.
\<close>

theorem pass_keeps_positions:
  fixes page :: "'e page" and elements :: "'v tag list"
  shows "(snd (afterPass page settled networkRecords (Fulfilled elements)) = Fulfilled (heap, out)
     \<longleftrightarrow> (\<forall>i < length elements.
            qualifies (indexedNetworkRecords networkRecords) (elements ! i) \<longrightarrow>
            answered page settled i (elements ! i))
        \<and> out = [0..<length elements]
        \<and> heap = map (\<lambda>i. enriched page (indexedNetworkRecords networkRecords) i (elements ! i))
                    [0..<length elements])
   \<and> (snd (afterPass_all page settled networkRecords (Fulfilled elements)) = Fulfilled (heap', out')
     \<longleftrightarrow> (\<forall>i < length elements.
            qualifies (indexedNetworkRecords_pick networkRecords) (elements ! i) \<longrightarrow>
            answered page settled i (elements ! i))
        \<and> out' = [0..<length elements]
        \<and> heap' = map (\<lambda>i. enriched page (indexedNetworkRecords_pick networkRecords) i
                              (elements ! i))
                    [0..<length elements])
   \<and> (set settled' = set settled \<longrightarrow>
        (snd (afterPass_all page settled' networkRecords (Fulfilled elements)) = Fulfilled (heap', out')
         \<longleftrightarrow> snd (afterPass_all page settled networkRecords (Fulfilled elements))
               = Fulfilled (heap', out')))"
  by (simp only: afterPass_Fulfilled_iff afterPass_all_Fulfilled_iff) simp



theorem pass_keeps_positions_witness:
  "(let A = \<lparr>tagName = ''IMG'', src = Some ''http://x/a.png'', srcset = [], srcsetUrls = [],
              sizes = [], media = None, clientWidth = 10, clientHeight = 10,
              naturalWidth = Some 0, naturalHeight = Some 0,
              isPicture = True, sources = None, networkRecord = None\<rparr>;
        B = \<lparr>tagName = ''IMG'', src = Some ''http://x/b.png'', srcset = [], srcsetUrls = [],
              sizes = [], media = None, clientWidth = 20, clientHeight = 20,
              naturalWidth = Some 0, naturalHeight = Some 0,
              isPicture = True, sources = None, networkRecord = None\<rparr>;
        networkRecords =
          [\<lparr>priv_url = ''http://x/a.png'', priv_mimeType = Some ''image/png'',
            getProp = [''resourceSize'' \<mapsto> (1::nat)]\<rparr>,
           \<lparr>priv_url = ''http://x/b.png'', priv_mimeType = Some ''image/png'',
            getProp = [''resourceSize'' \<mapsto> 2]\<rparr>];
        page = (\<lambda>i url. Load_event (100 + i) 50 :: unit image_event)
    in (case snd (afterPass_all page [1, 0] networkRecords (Fulfilled [A, B])) of
          Fulfilled (heap, out) \<Rightarrow>
            out = [0, 1] \<and> map src heap = [Some ''http://x/a.png'', Some ''http://x/b.png'']
            \<and> map naturalWidth heap = [Some 100, Some 101]
        | Rejected e \<Rightarrow> False
        | Pending \<Rightarrow> False)
       \<and> (case snd (afterPass page [1, 0] networkRecords (Fulfilled [A, B])) of
          Fulfilled (heap, out) \<Rightarrow>
            out = [0, 1] \<and> map src heap = [Some ''http://x/a.png'', Some ''http://x/b.png'']
            \<and> map naturalWidth heap = [Some 100, Some 101]
        | Rejected e \<Rightarrow> False
        | Pending \<Rightarrow> False))"
proof -
  let ?A = "\<lparr>tagName = ''IMG'', src = Some ''http://x/a.png'', srcset = [], srcsetUrls = [],
              sizes = [], media = None, clientWidth = 10, clientHeight = 10,
              naturalWidth = Some 0, naturalHeight = Some 0,
              isPicture = True, sources = None, networkRecord = None\<rparr> :: nat tag"
  let ?B = "\<lparr>tagName = ''IMG'', src = Some ''http://x/b.png'', srcset = [], srcsetUrls = [],
              sizes = [], media = None, clientWidth = 20, clientHeight = 20,
              naturalWidth = Some 0, naturalHeight = Some 0,
              isPicture = True, sources = None, networkRecord = None\<rparr> :: nat tag"
  let ?nrs = "[\<lparr>priv_url = ''http://x/a.png'', priv_mimeType = Some ''image/png'',
            getProp = [''resourceSize'' \<mapsto> (1::nat)]\<rparr>,
           \<lparr>priv_url = ''http://x/b.png'', priv_mimeType = Some ''image/png'',
            getProp = [''resourceSize'' \<mapsto> 2]\<rparr>]"
  let ?page = "\<lambda>i url. Load_event (100 + i) 50 :: unit image_event"
  let ?h1 = "map (\<lambda>i. enriched ?page (indexedNetworkRecords ?nrs) i ([?A, ?B] ! i))
               [0..<length [?A, ?B]]"
  let ?h2 = "map (\<lambda>i. enriched ?page (indexedNetworkRecords_pick ?nrs) i ([?A, ?B] ! i))
               [0..<length [?A, ?B]]"
  have i1: "indexedNetworkRecords ?nrs ''http://x/a.png'' \<noteq> None"
           "indexedNetworkRecords ?nrs ''http://x/b.png'' \<noteq> None"
    by (simp_all add: indexedNetworkRecords_def index_step_def test_image_def toString_def)
  have i2: "indexedNetworkRecords_pick ?nrs ''http://x/a.png'' \<noteq> None"
           "indexedNetworkRecords_pick ?nrs ''http://x/b.png'' \<noteq> None"
    by (simp_all add: indexedNetworkRecords_pick_def index_step_pick_def test_image_def
        toString_def)
  have two: "[0..<length [?A, ?B]] = [0, 1]" by (simp add: upt_conv_Cons)
  from pass_keeps_positions [of ?page "[1, 0]" ?nrs "[?A, ?B]" ?h1 "[0..<length [?A, ?B]]"
      ?h2 "[0..<length [?A, ?B]]" "[1, 0]"]
  have r: "snd (afterPass ?page [1, 0] ?nrs (Fulfilled [?A, ?B])) =
             Fulfilled (?h1, [0..<length [?A, ?B]])"
          "snd (afterPass_all ?page [1, 0] ?nrs (Fulfilled [?A, ?B])) =
             Fulfilled (?h2, [0..<length [?A, ?B]])"
    by (simp_all add: less_Suc_eq toString_def)
  have v1: "map src ?h1 = [Some ''http://x/a.png'', Some ''http://x/b.png'']"
           "map naturalWidth ?h1 = [Some 100, Some 101]"
    unfolding two using i1 by (auto simp: toString_def Object_assign_def)
  have v2: "map src ?h2 = [Some ''http://x/a.png'', Some ''http://x/b.png'']"
           "map naturalWidth ?h2 = [Some 100, Some 101]"
    unfolding two using i2 by (auto simp: toString_def Object_assign_def)
  show ?thesis
    unfolding Let_def r using v1 v2 two by simp
qed

lemma find_upt_first:
  assumes "i < n" "P i" "\<forall>j < i. \<not> P j"
  shows "find P [0..<n] = Some i"
  unfolding find_Some_iff using assms by (intro exI [of _ i]) simp

lemma find_first_after:
  assumes "\<forall>x \<in> set xs. \<not> P x" "P y"
  shows "find P (xs @ y # ys) = Some y"
  using assms by (induction xs) auto

text \<open>
  Claim C1, as amended. When the size request of a qualifying element is rejected, the pass
  does not complete and returns no sequence. The \<^verbatim>\<open>reduce\<close> revision rejects with that reason
  when the requests of all earlier qualifying elements were answered; the \<^verbatim>\<open>Promise.all\<close>
  revision rejects, with the reason of the first request to be rejected.
\<close>

theorem size_rejection_fails_pass:
  fixes page :: "'e page" and elements :: "'v tag list"
  shows
  "(i < length elements \<and> qualifies (indexedNetworkRecords networkRecords) (elements ! i)
      \<and> i \<in> set settled \<and> page i (src (elements ! i)) = Error_event e \<longrightarrow>
      (\<forall>v. snd (afterPass page settled networkRecords (Fulfilled elements)) \<noteq> Fulfilled v)
      \<and> ((\<forall>j < i. qualifies (indexedNetworkRecords networkRecords) (elements ! j) \<longrightarrow>
                   answered page settled j (elements ! j)) \<longrightarrow>
           snd (afterPass page settled networkRecords (Fulfilled elements)) = Rejected e))
   \<and> (i < length elements \<and> qualifies (indexedNetworkRecords_pick networkRecords) (elements ! i)
      \<and> i \<in> set settled \<and> page i (src (elements ! i)) = Error_event e \<longrightarrow>
      (\<exists>e'. snd (afterPass_all page settled networkRecords (Fulfilled elements)) = Rejected e')
      \<and> (\<forall>before after.
            settled = before @ i # after \<and>
            (\<forall>s \<in> set before. s < length elements \<and>
                  qualifies (indexedNetworkRecords_pick networkRecords) (elements ! s) \<longrightarrow>
                  (\<exists>w h. page s (src (elements ! s)) = Load_event w h)) \<longrightarrow>
            snd (afterPass_all page settled networkRecords (Fulfilled elements)) = Rejected e))"
proof (intro conjI impI allI)
  assume a: "i < length elements \<and> qualifies (indexedNetworkRecords networkRecords) (elements ! i)
      \<and> i \<in> set settled \<and> page i (src (elements ! i)) = Error_event e"
  then have "\<not> (\<forall>i < length elements.
            qualifies (indexedNetworkRecords networkRecords) (elements ! i) \<longrightarrow>
            answered page settled i (elements ! i))"
    by (intro notI) (auto dest!: spec [of _ i])
  then show "snd (afterPass page settled networkRecords (Fulfilled elements)) \<noteq> Fulfilled v"
    for v by (cases v) (simp only: afterPass_Fulfilled_iff, simp)
  assume b: "\<forall>j < i. qualifies (indexedNetworkRecords networkRecords) (elements ! j) \<longrightarrow>
                   answered page settled j (elements ! j)"
  have "find (\<lambda>i. qualifies (indexedNetworkRecords networkRecords) (elements ! i) \<and>
                     \<not> answered page settled i (elements ! i)) [0..<length elements] = Some i"
    using a b by (intro find_upt_first) auto
  then show "snd (afterPass page settled networkRecords (Fulfilled elements)) = Rejected e"
    using a by (simp add: afterPass_closed)
next
  assume a: "i < length elements \<and>
      qualifies (indexedNetworkRecords_pick networkRecords) (elements ! i)
      \<and> i \<in> set settled \<and> page i (src (elements ! i)) = Error_event e"
  define R where "R = (\<lambda>s. s < length elements \<and>
                     qualifies (indexedNetworkRecords_pick networkRecords) (elements ! s) \<and>
                     (\<exists>e. page s (src (elements ! s)) = Error_event e))"
  have Ri: "R i" using a by (simp add: R_def)
  with a have "find R settled \<noteq> None" by (auto simp: find_None_iff)
  then obtain s where s: "find R settled = Some s" by blast
  then have "R s" by (auto simp: find_Some_iff)
  then obtain e' where "page s (src (elements ! s)) = Error_event e'" by (auto simp: R_def)
  with s have "snd (afterPass_all page settled networkRecords (Fulfilled elements)) = Rejected e'"
    unfolding afterPass_all_closed R_def [symmetric] by simp
  then show "\<exists>e'. snd (afterPass_all page settled networkRecords (Fulfilled elements))
                   = Rejected e'" ..
  fix before after
  assume b: "settled = before @ i # after \<and>
            (\<forall>s \<in> set before. s < length elements \<and>
                  qualifies (indexedNetworkRecords_pick networkRecords) (elements ! s) \<longrightarrow>
                  (\<exists>w h. page s (src (elements ! s)) = Load_event w h))"
  then have "\<forall>s \<in> set before. \<not> R s" by (auto simp: R_def)
  with Ri b have "find R settled = Some i" by (simp add: find_first_after)
  with a show "snd (afterPass_all page settled networkRecords (Fulfilled elements)) = Rejected e"
    unfolding afterPass_all_closed R_def [symmetric] by simp
qed


text \<open>
  One picture whose image fails to load and one plain image: both revisions reject, so
  neither record reaches the caller.
\<close>

theorem size_rejection_fails_pass_counterexample:
  "(let A = \<lparr>tagName = ''IMG'', src = Some ''http://x/a.png'', srcset = [], srcsetUrls = [],
              sizes = [], media = None, clientWidth = 10, clientHeight = 10,
              naturalWidth = Some 0, naturalHeight = Some 0,
              isPicture = True, sources = None, networkRecord = None\<rparr>;
        B = \<lparr>tagName = ''IMG'', src = Some ''http://x/b.png'', srcset = [], srcsetUrls = [],
              sizes = [], media = None, clientWidth = 20, clientHeight = 20,
              naturalWidth = Some 20, naturalHeight = Some 20,
              isPicture = False, sources = None, networkRecord = None\<rparr>;
        networkRecords =
          [\<lparr>priv_url = ''http://x/a.png'', priv_mimeType = Some ''image/png'',
            getProp = [''resourceSize'' \<mapsto> (1::nat)]\<rparr>];
        page = (\<lambda>i url. Error_event ''ImageLoadError'')
    in snd (afterPass page [0] networkRecords (Fulfilled [A, B])) = Rejected ''ImageLoadError''
       \<and> snd (afterPass_all page [0] networkRecords (Fulfilled [A, B]))
           = Rejected ''ImageLoadError'')"
  unfolding Let_def afterPass_closed afterPass_all_closed
  by (simp add: upt_conv_Cons indexedNetworkRecords_def index_step_def
      indexedNetworkRecords_pick_def index_step_pick_def test_image_def toString_def)

theorem size_rejection_fails_pass_witness:
  "(let A = \<lparr>tagName = ''IMG'', src = Some ''http://x/a.png'', srcset = [], srcsetUrls = [],
              sizes = [], media = None, clientWidth = 10, clientHeight = 10,
              naturalWidth = Some 0, naturalHeight = Some 0,
              isPicture = True, sources = None, networkRecord = None\<rparr>;
        B = \<lparr>tagName = ''IMG'', src = Some ''http://x/b.png'', srcset = [], srcsetUrls = [],
              sizes = [], media = None, clientWidth = 20, clientHeight = 20,
              naturalWidth = Some 20, naturalHeight = Some 20,
              isPicture = False, sources = None, networkRecord = None\<rparr>;
        networkRecords =
          [\<lparr>priv_url = ''http://x/a.png'', priv_mimeType = Some ''image/png'',
            getProp = [''resourceSize'' \<mapsto> (1::nat)]\<rparr>];
        page = (\<lambda>i url. Error_event ''ImageLoadError'')
    in snd (afterPass page [1] networkRecords (Fulfilled [B, A])) = Rejected ''ImageLoadError''
       \<and> snd (afterPass_all page [1] networkRecords (Fulfilled [B, A]))
           = Rejected ''ImageLoadError'')"
proof -
  let ?A = "\<lparr>tagName = ''IMG'', src = Some ''http://x/a.png'', srcset = [], srcsetUrls = [],
              sizes = [], media = None, clientWidth = 10, clientHeight = 10,
              naturalWidth = Some 0, naturalHeight = Some 0,
              isPicture = True, sources = None, networkRecord = None\<rparr> :: nat tag"
  let ?B = "\<lparr>tagName = ''IMG'', src = Some ''http://x/b.png'', srcset = [], srcsetUrls = [],
              sizes = [], media = None, clientWidth = 20, clientHeight = 20,
              naturalWidth = Some 20, naturalHeight = Some 20,
              isPicture = False, sources = None, networkRecord = None\<rparr> :: nat tag"
  let ?nrs = "[\<lparr>priv_url = ''http://x/a.png'', priv_mimeType = Some ''image/png'',
            getProp = [''resourceSize'' \<mapsto> (1::nat)]\<rparr>]"
  let ?page = "\<lambda>i url. Error_event ''ImageLoadError'' :: string image_event"
  have i1: "indexedNetworkRecords ?nrs ''http://x/a.png'' \<noteq> None"
           "indexedNetworkRecords ?nrs ''http://x/b.png'' = None"
    by (simp_all add: indexedNetworkRecords_def index_step_def test_image_def toString_def)
  have i2: "indexedNetworkRecords_pick ?nrs ''http://x/a.png'' \<noteq> None"
    by (simp_all add: indexedNetworkRecords_pick_def index_step_pick_def test_image_def
        toString_def)
  have h1: "1 < length [?B, ?A] \<and> qualifies (indexedNetworkRecords ?nrs) ([?B, ?A] ! 1)
      \<and> 1 \<in> set [1::nat] \<and> ?page 1 (src ([?B, ?A] ! 1)) = Error_event ''ImageLoadError''"
    using i1 by (simp add: toString_def)
  have h2: "1 < length [?B, ?A] \<and> qualifies (indexedNetworkRecords_pick ?nrs) ([?B, ?A] ! 1)
      \<and> 1 \<in> set [1::nat] \<and> ?page 1 (src ([?B, ?A] ! 1)) = Error_event ''ImageLoadError''"
    using i2 by (simp add: toString_def)
  have h3: "\<forall>j < 1. qualifies (indexedNetworkRecords ?nrs) ([?B, ?A] ! j) \<longrightarrow>
                   answered ?page [1] j ([?B, ?A] ! j)"
    by simp
  have h4: "[1::nat] = [] @ 1 # [] \<and>
            (\<forall>s \<in> set []. s < length [?B, ?A] \<and>
                  qualifies (indexedNetworkRecords_pick ?nrs) ([?B, ?A] ! s) \<longrightarrow>
                  (\<exists>w h. ?page s (src ([?B, ?A] ! s)) = Load_event w h))"
    by simp
  from size_rejection_fails_pass [of 1 "[?B, ?A]" ?nrs "[1]" ?page "''ImageLoadError''"]
    h1 h2 h3 h4
  have "snd (afterPass ?page [1] ?nrs (Fulfilled [?B, ?A])) = Rejected ''ImageLoadError''"
    and "snd (afterPass_all ?page [1] ?nrs (Fulfilled [?B, ?A])) = Rejected ''ImageLoadError''"
    by blast+
  then show ?thesis unfolding Let_def by simp
qed


subsection \<open>Linking, size requests and the assignment of the size\<close>

lemma enriched_fields:
  "networkRecord (enriched page idx i element) = idx (toString (src element))"
  "src (enriched page idx i element) = src element"
  by (simp_all add: Object_assign_def split: image_event.splits)

lemma map_nth_upt: "map (\<lambda>i. f (xs ! i)) [0..<length xs] = map f xs"
proof -
  have "map f (map ((!) xs) [0..<length xs]) = map f xs" by (simp only: map_nth)
  then show ?thesis by (simp only: map_map comp_def)
qed

lemma nth_map_upt0: "i < n \<Longrightarrow> map f [0..<n] ! i = f i"
  by simp

lemma tags_map_all:
  "tags_map idx [0..<length elements] (elements, []) =
     ((map (linkNetworkRecord idx) elements,
       map (\<lambda>i. (i, src (elements ! i)))
         (filter (\<lambda>i. qualifies idx (elements ! i)) [0..<length elements])),
      map (\<lambda>i. if qualifies idx (elements ! i) then SizePromise i (src (elements ! i))
               else Promise_resolve i) [0..<length elements])"
proof -
  have "map (\<lambda>i. linkNetworkRecord idx (elements ! i)) [0..<length elements] =
        map (linkNetworkRecord idx) elements" by (rule map_nth_upt)
  then show ?thesis
    using tags_map_upt [of 0 "length elements" elements elements idx "[]"]
    by simp
qed

lemma afterPass_all_Fulfilled_fields:
  fixes page :: "'e page" and elements :: "'v tag list"
  assumes "snd (afterPass_all page settled networkRecords (Fulfilled elements)) = Fulfilled (heap, out)"
  shows "length out = length elements \<and> length heap = length elements
          \<and> (\<forall>i < length elements.
                out ! i = i \<and> src (heap ! i) = src (elements ! i)
                \<and> networkRecord (heap ! i) =
                    indexedNetworkRecords_pick networkRecords (toString (src (elements ! i))))"
proof (intro conjI)
  from assms have o: "out = [0..<length elements]"
    and h: "heap = map (\<lambda>i. enriched page (indexedNetworkRecords_pick networkRecords) i
                              (elements ! i)) [0..<length elements]"
    unfolding afterPass_all_Fulfilled_iff by blast+
  show "length out = length elements" using o by simp
  show "length heap = length elements" using h by simp
  show "\<forall>i < length elements.
                out ! i = i \<and> src (heap ! i) = src (elements ! i)
                \<and> networkRecord (heap ! i) =
                    indexedNetworkRecords_pick networkRecords (toString (src (elements ! i)))"
  proof (intro allI impI)
    fix i assume i: "i < length elements"
    have "heap ! i = enriched page (indexedNetworkRecords_pick networkRecords) i (elements ! i)"
      by (simp only: h nth_map_upt0 [OF i])
    moreover have "out ! i = i" using i by (simp add: o)
    ultimately show "out ! i = i \<and> src (heap ! i) = src (elements ! i)
                \<and> networkRecord (heap ! i) =
                    indexedNetworkRecords_pick networkRecords (toString (src (elements ! i)))"
      by (simp only: enriched_fields simp_thms)
  qed
qed

lemma afterPass_Fulfilled_fields:
  fixes page :: "'e page" and elements :: "'v tag list"
  assumes "snd (afterPass page settled networkRecords (Fulfilled elements)) = Fulfilled (heap, out)"
  shows "length out = length elements \<and> length heap = length elements
          \<and> (\<forall>i < length elements.
                out ! i = i \<and> src (heap ! i) = src (elements ! i)
                \<and> networkRecord (heap ! i) =
                    indexedNetworkRecords networkRecords (toString (src (elements ! i))))"
proof (intro conjI)
  from assms have o: "out = [0..<length elements]"
    and h: "heap = map (\<lambda>i. enriched page (indexedNetworkRecords networkRecords) i
                              (elements ! i)) [0..<length elements]"
    unfolding afterPass_Fulfilled_iff by blast+
  show "length out = length elements" using o by simp
  show "length heap = length elements" using h by simp
  show "\<forall>i < length elements.
                out ! i = i \<and> src (heap ! i) = src (elements ! i)
                \<and> networkRecord (heap ! i) =
                    indexedNetworkRecords networkRecords (toString (src (elements ! i)))"
  proof (intro allI impI)
    fix i assume i: "i < length elements"
    have "heap ! i = enriched page (indexedNetworkRecords networkRecords) i (elements ! i)"
      by (simp only: h nth_map_upt0 [OF i])
    moreover have "out ! i = i" using i by (simp add: o)
    ultimately show "out ! i = i \<and> src (heap ! i) = src (elements ! i)
                \<and> networkRecord (heap ! i) =
                    indexedNetworkRecords networkRecords (toString (src (elements ! i)))"
      by (simp only: enriched_fields simp_thms)
  qed
qed

lemma afterPass_all_none_qualify:
  fixes page :: "'e page" and elements :: "'v tag list"
  assumes n: "\<forall>i < length elements.
          \<not> qualifies (indexedNetworkRecords_pick networkRecords) (elements ! i)"
  shows "snd (afterPass_all page settled networkRecords (Fulfilled elements)) =
          Fulfilled (map (linkNetworkRecord (indexedNetworkRecords_pick networkRecords)) elements,
                     [0..<length elements])"
proof -
  have "enriched page (indexedNetworkRecords_pick networkRecords) i (elements ! i) =
        linkNetworkRecord (indexedNetworkRecords_pick networkRecords) (elements ! i)"
    if "i < length elements" for i
  proof -
    from n that
    have nq: "\<not> qualifies (indexedNetworkRecords_pick networkRecords) (elements ! i)" by blast
    show ?thesis by (simp only: nq if_False)
  qed
  then have "map (\<lambda>i. enriched page (indexedNetworkRecords_pick networkRecords) i (elements ! i))
               [0..<length elements]
             = map (\<lambda>i. linkNetworkRecord (indexedNetworkRecords_pick networkRecords) (elements ! i))
                 [0..<length elements]"
    by (intro map_cong refl) simp
  also have "\<dots> = map (linkNetworkRecord (indexedNetworkRecords_pick networkRecords)) elements"
    by (rule map_nth_upt)
  finally have eq: "map (linkNetworkRecord (indexedNetworkRecords_pick networkRecords)) elements =
     map (\<lambda>i. enriched page (indexedNetworkRecords_pick networkRecords) i (elements ! i))
               [0..<length elements]" by (rule sym)
  have q: "\<forall>i < length elements.
            qualifies (indexedNetworkRecords_pick networkRecords) (elements ! i) \<longrightarrow>
            answered page settled i (elements ! i)"
    using n by blast
  show ?thesis
    by (rule iffD2 [OF afterPass_all_Fulfilled_iff]) (intro conjI q refl eq)
qed

lemma afterPass_none_qualify:
  fixes page :: "'e page" and elements :: "'v tag list"
  assumes n: "\<forall>i < length elements.
          \<not> qualifies (indexedNetworkRecords networkRecords) (elements ! i)"
  shows "snd (afterPass page settled networkRecords (Fulfilled elements)) =
          Fulfilled (map (linkNetworkRecord (indexedNetworkRecords networkRecords)) elements,
                     [0..<length elements])"
proof -
  have "enriched page (indexedNetworkRecords networkRecords) i (elements ! i) =
        linkNetworkRecord (indexedNetworkRecords networkRecords) (elements ! i)"
    if "i < length elements" for i
  proof -
    from n that
    have nq: "\<not> qualifies (indexedNetworkRecords networkRecords) (elements ! i)" by blast
    show ?thesis by (simp only: nq if_False)
  qed
  then have "map (\<lambda>i. enriched page (indexedNetworkRecords networkRecords) i (elements ! i))
               [0..<length elements]
             = map (\<lambda>i. linkNetworkRecord (indexedNetworkRecords networkRecords) (elements ! i))
                 [0..<length elements]"
    by (intro map_cong refl) simp
  also have "\<dots> = map (linkNetworkRecord (indexedNetworkRecords networkRecords)) elements"
    by (rule map_nth_upt)
  finally have eq: "map (linkNetworkRecord (indexedNetworkRecords networkRecords)) elements =
     map (\<lambda>i. enriched page (indexedNetworkRecords networkRecords) i (elements ! i))
               [0..<length elements]" by (rule sym)
  have q: "\<forall>i < length elements.
            qualifies (indexedNetworkRecords networkRecords) (elements ! i) \<longrightarrow>
            answered page settled i (elements ! i)"
    using n by blast
  show ?thesis
    by (rule iffD2 [OF afterPass_Fulfilled_iff]) (intro conjI q refl eq)
qed

lemma afterPass_all_Fulfilled_ex:
  fixes page :: "'e page" and elements :: "'v tag list"
  shows "(\<exists>heap out. snd (afterPass_all page settled networkRecords (Fulfilled elements))
                       = Fulfilled (heap, out))
     \<longleftrightarrow> (\<forall>i < length elements.
            qualifies (indexedNetworkRecords_pick networkRecords) (elements ! i) \<longrightarrow>
            answered page settled i (elements ! i))"
proof
  assume "\<exists>heap out. snd (afterPass_all page settled networkRecords (Fulfilled elements))
                       = Fulfilled (heap, out)"
  then obtain heap out
    where "snd (afterPass_all page settled networkRecords (Fulfilled elements))
           = Fulfilled (heap, out)" by blast
  then show "\<forall>i < length elements.
            qualifies (indexedNetworkRecords_pick networkRecords) (elements ! i) \<longrightarrow>
            answered page settled i (elements ! i)"
    by (rule conjunct1 [OF iffD1 [OF afterPass_all_Fulfilled_iff]])
next
  assume q: "\<forall>i < length elements.
            qualifies (indexedNetworkRecords_pick networkRecords) (elements ! i) \<longrightarrow>
            answered page settled i (elements ! i)"
  have "snd (afterPass_all page settled networkRecords (Fulfilled elements)) =
          Fulfilled (map (\<lambda>i. enriched page (indexedNetworkRecords_pick networkRecords) i
                                 (elements ! i)) [0..<length elements],
                     [0..<length elements])"
    by (rule iffD2 [OF afterPass_all_Fulfilled_iff]) (intro conjI q refl)
  then show "\<exists>heap out. snd (afterPass_all page settled networkRecords (Fulfilled elements))
                       = Fulfilled (heap, out)" by blast
qed

lemma afterPass_Fulfilled_ex:
  fixes page :: "'e page" and elements :: "'v tag list"
  shows "(\<exists>heap out. snd (afterPass page settled networkRecords (Fulfilled elements))
                       = Fulfilled (heap, out))
     \<longleftrightarrow> (\<forall>i < length elements.
            qualifies (indexedNetworkRecords networkRecords) (elements ! i) \<longrightarrow>
            answered page settled i (elements ! i))"
proof
  assume "\<exists>heap out. snd (afterPass page settled networkRecords (Fulfilled elements))
                       = Fulfilled (heap, out)"
  then obtain heap out
    where "snd (afterPass page settled networkRecords (Fulfilled elements))
           = Fulfilled (heap, out)" by blast
  then show "\<forall>i < length elements.
            qualifies (indexedNetworkRecords networkRecords) (elements ! i) \<longrightarrow>
            answered page settled i (elements ! i)"
    by (rule conjunct1 [OF iffD1 [OF afterPass_Fulfilled_iff]])
next
  assume q: "\<forall>i < length elements.
            qualifies (indexedNetworkRecords networkRecords) (elements ! i) \<longrightarrow>
            answered page settled i (elements ! i)"
  have "snd (afterPass page settled networkRecords (Fulfilled elements)) =
          Fulfilled (map (\<lambda>i. enriched page (indexedNetworkRecords networkRecords) i
                                 (elements ! i)) [0..<length elements],
                     [0..<length elements])"
    by (rule iffD2 [OF afterPass_Fulfilled_iff]) (intro conjI q refl)
  then show "\<exists>heap out. snd (afterPass page settled networkRecords (Fulfilled elements))
                       = Fulfilled (heap, out)" by blast
qed

text \<open>
  Claim C3, as amended. Linking elements to network records filters none of them out. The
  \<^verbatim>\<open>map\<close> of the \<^verbatim>\<open>Promise.all\<close> revision yields one promise per element and leaves each
  element with the index entry of its \<^verbatim>\<open>src\<close>, which is \<^verbatim>\<open>undefined\<close> when the index has none.
  In either revision the pass returns a sequence exactly when the size request of every
  qualifying element is answered with a loaded image; a sequence that it returns has one
  record per element, in place, each with the index entry of its \<^verbatim>\<open>src\<close>; and when no element
  qualifies for a size request (as when no \<^verbatim>\<open>src\<close> is matched) the pass returns all of them,
  whatever the page does.
\<close>

theorem correlation_keeps_every_element:
  fixes page :: "'e page" and elements :: "'v tag list"
  shows
  "tags_map idx [0..<length elements] (elements, []) =
     ((map (linkNetworkRecord idx) elements,
       map (\<lambda>i. (i, src (elements ! i)))
         (filter (\<lambda>i. qualifies idx (elements ! i)) [0..<length elements])),
      map (\<lambda>i. if qualifies idx (elements ! i) then SizePromise i (src (elements ! i))
               else Promise_resolve i) [0..<length elements])
   \<and> networkRecord (linkNetworkRecord idx element) = idx (toString (src element))
   \<and> (snd (afterPass_all page settled networkRecords (Fulfilled elements)) = Fulfilled (heap, out)
        \<longrightarrow> length out = length elements \<and> length heap = length elements
          \<and> (\<forall>i < length elements.
                out ! i = i \<and> src (heap ! i) = src (elements ! i)
                \<and> networkRecord (heap ! i) =
                    indexedNetworkRecords_pick networkRecords (toString (src (elements ! i)))))
   \<and> (snd (afterPass page settled networkRecords (Fulfilled elements)) = Fulfilled (heap', out')
        \<longrightarrow> length out' = length elements \<and> length heap' = length elements
          \<and> (\<forall>i < length elements.
                out' ! i = i \<and> src (heap' ! i) = src (elements ! i)
                \<and> networkRecord (heap' ! i) =
                    indexedNetworkRecords networkRecords (toString (src (elements ! i)))))
   \<and> ((\<forall>i < length elements.
          \<not> qualifies (indexedNetworkRecords_pick networkRecords) (elements ! i)) \<longrightarrow>
        snd (afterPass_all page settled networkRecords (Fulfilled elements)) =
          Fulfilled (map (linkNetworkRecord (indexedNetworkRecords_pick networkRecords)) elements,
                     [0..<length elements]))
   \<and> ((\<forall>i < length elements.
          \<not> qualifies (indexedNetworkRecords networkRecords) (elements ! i)) \<longrightarrow>
        snd (afterPass page settled networkRecords (Fulfilled elements)) =
          Fulfilled (map (linkNetworkRecord (indexedNetworkRecords networkRecords)) elements,
                     [0..<length elements]))
   \<and> ((\<exists>heap out. snd (afterPass_all page settled networkRecords (Fulfilled elements))
                      = Fulfilled (heap, out))
        \<longleftrightarrow> (\<forall>i < length elements.
               qualifies (indexedNetworkRecords_pick networkRecords) (elements ! i) \<longrightarrow>
               answered page settled i (elements ! i)))
   \<and> ((\<exists>heap out. snd (afterPass page settled networkRecords (Fulfilled elements))
                      = Fulfilled (heap, out))
        \<longleftrightarrow> (\<forall>i < length elements.
               qualifies (indexedNetworkRecords networkRecords) (elements ! i) \<longrightarrow>
               answered page settled i (elements ! i)))"
proof (intro conjI impI)
  show "(\<exists>heap out. snd (afterPass_all page settled networkRecords (Fulfilled elements))
                      = Fulfilled (heap, out))
        \<longleftrightarrow> (\<forall>i < length elements.
               qualifies (indexedNetworkRecords_pick networkRecords) (elements ! i) \<longrightarrow>
               answered page settled i (elements ! i))"
    by (rule afterPass_all_Fulfilled_ex)
  show "(\<exists>heap out. snd (afterPass page settled networkRecords (Fulfilled elements))
                      = Fulfilled (heap, out))
        \<longleftrightarrow> (\<forall>i < length elements.
               qualifies (indexedNetworkRecords networkRecords) (elements ! i) \<longrightarrow>
               answered page settled i (elements ! i))"
    by (rule afterPass_Fulfilled_ex)
next
  show "tags_map idx [0..<length elements] (elements, []) =
     ((map (linkNetworkRecord idx) elements,
       map (\<lambda>i. (i, src (elements ! i)))
         (filter (\<lambda>i. qualifies idx (elements ! i)) [0..<length elements])),
      map (\<lambda>i. if qualifies idx (elements ! i) then SizePromise i (src (elements ! i))
               else Promise_resolve i) [0..<length elements])"
    by (rule tags_map_all)
  show "networkRecord (linkNetworkRecord idx element) = idx (toString (src element))"
    by (rule link_fields)
next
  assume a: "snd (afterPass_all page settled networkRecords (Fulfilled elements))
             = Fulfilled (heap, out)"
  from afterPass_all_Fulfilled_fields [OF a]
  show "length out = length elements" and "length heap = length elements"
    and "\<forall>i < length elements.
                out ! i = i \<and> src (heap ! i) = src (elements ! i)
                \<and> networkRecord (heap ! i) =
                    indexedNetworkRecords_pick networkRecords (toString (src (elements ! i)))"
    by blast+
next
  assume a: "snd (afterPass page settled networkRecords (Fulfilled elements))
             = Fulfilled (heap', out')"
  from afterPass_Fulfilled_fields [OF a]
  show "length out' = length elements" and "length heap' = length elements"
    and "\<forall>i < length elements.
                out' ! i = i \<and> src (heap' ! i) = src (elements ! i)
                \<and> networkRecord (heap' ! i) =
                    indexedNetworkRecords networkRecords (toString (src (elements ! i)))"
    by blast+
next
  assume "\<forall>i < length elements.
          \<not> qualifies (indexedNetworkRecords_pick networkRecords) (elements ! i)"
  then show "snd (afterPass_all page settled networkRecords (Fulfilled elements)) =
          Fulfilled (map (linkNetworkRecord (indexedNetworkRecords_pick networkRecords)) elements,
                     [0..<length elements])"
    by (rule afterPass_all_none_qualify)
next
  assume "\<forall>i < length elements.
          \<not> qualifies (indexedNetworkRecords networkRecords) (elements ! i)"
  then show "snd (afterPass page settled networkRecords (Fulfilled elements)) =
          Fulfilled (map (linkNetworkRecord (indexedNetworkRecords networkRecords)) elements,
                     [0..<length elements])"
    by (rule afterPass_none_qualify)
qed

text \<open>
  A picture whose image fails to load, followed by a picture with an empty \<^verbatim>\<open>src\<close>: the
  pass rejects, or stays pending when the request is never answered, and the second
  element is not returned.
\<close>

theorem correlation_keeps_every_element_counterexample:
  "(let P1 = \<lparr>tagName = ''IMG'', src = Some ''http://x/a.png'', srcset = [], srcsetUrls = [],
              sizes = [], media = None, clientWidth = 10, clientHeight = 10,
              naturalWidth = Some 0, naturalHeight = Some 0,
              isPicture = True, sources = None, networkRecord = None\<rparr>;
        U = \<lparr>tagName = ''IMG'', src = Some [], srcset = [], srcsetUrls = [],
              sizes = [], media = None, clientWidth = 30, clientHeight = 30,
              naturalWidth = Some 0, naturalHeight = Some 0,
              isPicture = True, sources = None, networkRecord = None\<rparr>;
        networkRecords =
          [\<lparr>priv_url = ''http://x/a.png'', priv_mimeType = Some ''image/png'',
            getProp = [''resourceSize'' \<mapsto> (5::nat)]\<rparr>];
        page = (\<lambda>i url. Error_event ''ImageLoadError'')
    in snd (afterPass page [0] networkRecords (Fulfilled [P1, U])) = Rejected ''ImageLoadError''
       \<and> snd (afterPass page [] networkRecords (Fulfilled [P1, U])) = Pending
       \<and> snd (afterPass_all page [0] networkRecords (Fulfilled [P1, U]))
           = Rejected ''ImageLoadError''
       \<and> snd (afterPass_all page [] networkRecords (Fulfilled [P1, U])) = Pending)"
  unfolding Let_def afterPass_closed afterPass_all_closed
  by (simp add: upt_conv_Cons indexedNetworkRecords_def index_step_def
      indexedNetworkRecords_pick_def index_step_pick_def test_image_def toString_def
      Ex_less_Suc)

theorem correlation_keeps_every_element_witness:
  "(let A = \<lparr>tagName = ''IMG'', src = Some ''http://x/a.png'', srcset = [], srcsetUrls = [],
              sizes = [], media = None, clientWidth = 10, clientHeight = 10,
              naturalWidth = Some 10, naturalHeight = Some 10,
              isPicture = False, sources = None, networkRecord = None\<rparr>;
        B = \<lparr>tagName = ''IMG'', src = Some [], srcset = [], srcsetUrls = [],
              sizes = [], media = None, clientWidth = 20, clientHeight = 20,
              naturalWidth = Some 0, naturalHeight = Some 0,
              isPicture = True, sources = None, networkRecord = None\<rparr>;
        networkRecords =
          [\<lparr>priv_url = ''http://x/a.png'', priv_mimeType = Some ''text/html'',
            getProp = [''resourceSize'' \<mapsto> (5::nat)]\<rparr>];
        page = (\<lambda>i url. Error_event ''ImageLoadError'')
    in snd (afterPass page [] networkRecords (Fulfilled [A, B])) = Fulfilled ([A, B], [0, 1])
       \<and> snd (afterPass_all page [] networkRecords (Fulfilled [A, B]))
           = Fulfilled ([A, B], [0, 1]))"
proof -
  let ?A = "\<lparr>tagName = ''IMG'', src = Some ''http://x/a.png'', srcset = [], srcsetUrls = [],
              sizes = [], media = None, clientWidth = 10, clientHeight = 10,
              naturalWidth = Some 10, naturalHeight = Some 10,
              isPicture = False, sources = None, networkRecord = None\<rparr> :: nat tag"
  let ?B = "\<lparr>tagName = ''IMG'', src = Some [], srcset = [], srcsetUrls = [],
              sizes = [], media = None, clientWidth = 20, clientHeight = 20,
              naturalWidth = Some 0, naturalHeight = Some 0,
              isPicture = True, sources = None, networkRecord = None\<rparr> :: nat tag"
  let ?nrs = "[\<lparr>priv_url = ''http://x/a.png'', priv_mimeType = Some ''text/html'',
            getProp = [''resourceSize'' \<mapsto> (5::nat)]\<rparr>]"
  let ?page = "\<lambda>i url. Error_event ''ImageLoadError'' :: string image_event"
  have i1: "indexedNetworkRecords ?nrs = Map.empty"
    by (simp add: indexedNetworkRecords_def index_step_def test_image_def toString_def)
  have i2: "indexedNetworkRecords_pick ?nrs = Map.empty"
    by (simp add: indexedNetworkRecords_pick_def index_step_pick_def test_image_def toString_def)
  have h1: "\<forall>i < length [?A, ?B]. \<not> qualifies (indexedNetworkRecords ?nrs) ([?A, ?B] ! i)"
    by (simp add: i1)
  have h2: "\<forall>i < length [?A, ?B]. \<not> qualifies (indexedNetworkRecords_pick ?nrs) ([?A, ?B] ! i)"
    by (simp add: i2)
  have l1: "map (linkNetworkRecord (indexedNetworkRecords ?nrs)) [?A, ?B] = [?A, ?B]"
    by (simp add: i1 linkNetworkRecord_eq)
  have l2: "map (linkNetworkRecord (indexedNetworkRecords_pick ?nrs)) [?A, ?B] = [?A, ?B]"
    by (simp add: i2 linkNetworkRecord_eq)
  have two: "[0..<length [?A, ?B]] = [0, 1]" by (simp add: upt_conv_Cons)
  from correlation_keeps_every_element [of Map.empty "[?A, ?B]" ?A ?page "[]" ?nrs] h1 h2
  have "snd (afterPass ?page [] ?nrs (Fulfilled [?A, ?B])) =
          Fulfilled (map (linkNetworkRecord (indexedNetworkRecords ?nrs)) [?A, ?B],
                     [0..<length [?A, ?B]])"
    and "snd (afterPass_all ?page [] ?nrs (Fulfilled [?A, ?B])) =
          Fulfilled (map (linkNetworkRecord (indexedNetworkRecords_pick ?nrs)) [?A, ?B],
                     [0..<length [?A, ?B]])"
    by blast+
  then show ?thesis unfolding Let_def l1 l2 two by simp
qed


lemma afterPass_all_passes_through:
  fixes page :: "'e page" and elements :: "'v tag list"
  assumes a: "snd (afterPass_all page settled networkRecords (Fulfilled elements))
              = Fulfilled (heap, out)"
    and i: "i < length elements"
    and nq: "\<not> qualifies (indexedNetworkRecords_pick networkRecords) (elements ! i)"
  shows "heap ! (out ! i) =
         linkNetworkRecord (indexedNetworkRecords_pick networkRecords) (elements ! i)"
proof -
  from a have o: "out = [0..<length elements]"
    and h: "heap = map (\<lambda>i. enriched page (indexedNetworkRecords_pick networkRecords) i
                              (elements ! i)) [0..<length elements]"
    unfolding afterPass_all_Fulfilled_iff by blast+
  have "out ! i = i" using i by (simp add: o)
  moreover
  have "heap ! i = enriched page (indexedNetworkRecords_pick networkRecords) i (elements ! i)"
    by (simp only: h nth_map_upt0 [OF i])
  ultimately show ?thesis by (simp only: nq if_False)
qed

lemma afterPass_passes_through:
  fixes page :: "'e page" and elements :: "'v tag list"
  assumes a: "snd (afterPass page settled networkRecords (Fulfilled elements))
              = Fulfilled (heap, out)"
    and i: "i < length elements"
    and nq: "\<not> qualifies (indexedNetworkRecords networkRecords) (elements ! i)"
  shows "heap ! (out ! i) =
         linkNetworkRecord (indexedNetworkRecords networkRecords) (elements ! i)"
proof -
  from a have o: "out = [0..<length elements]"
    and h: "heap = map (\<lambda>i. enriched page (indexedNetworkRecords networkRecords) i
                              (elements ! i)) [0..<length elements]"
    unfolding afterPass_Fulfilled_iff by blast+
  have "out ! i = i" using i by (simp add: o)
  moreover
  have "heap ! i = enriched page (indexedNetworkRecords networkRecords) i (elements ! i)"
    by (simp only: h nth_map_upt0 [OF i])
  ultimately show ?thesis by (simp only: nq if_False)
qed

lemma mem_calls:
  "(i, url) \<in> set (map (\<lambda>i. (i, f i)) (filter P [0..<n])) \<longleftrightarrow> i < n \<and> url = f i \<and> P i"
  by auto

lemma unmatched_unchanged:
  "idx (toString (src element)) = None \<Longrightarrow>
     linkNetworkRecord idx element = element\<lparr>networkRecord := None\<rparr>"
  "idx (toString (src element)) = None \<Longrightarrow> networkRecord element = None \<Longrightarrow>
     linkNetworkRecord idx element = element"
  by (simp_all add: linkNetworkRecord_eq)

text \<open>
  Claim C4, as amended. The size requests sent are for elements that are pictures and have
  a network record. The \<^verbatim>\<open>Promise.all\<close> revision sends one for each such element, in order;
  the \<^verbatim>\<open>reduce\<close> revision sends one for each such element that its chain reaches, that is
  for which the request of every such element before it was answered with a loaded image. No
  request is sent for an element without a network record, picture or not, and such an
  element is returned as it was, with \<^verbatim>\<open>networkRecord\<close> holding \<^verbatim>\<open>undefined\<close>.
\<close>

theorem size_request_iff_qualifies:
  fixes page :: "'e page" and elements :: "'v tag list"
  shows
  "fst (afterPass_all page settled networkRecords (Fulfilled elements)) =
      map (\<lambda>i. (i, src (elements ! i)))
        (filter (\<lambda>i. qualifies (indexedNetworkRecords_pick networkRecords) (elements ! i))
           [0..<length elements])
   \<and> fst (afterPass page settled networkRecords (Fulfilled elements)) =
      map (\<lambda>i. (i, src (elements ! i)))
        (filter (\<lambda>i. qualifies (indexedNetworkRecords networkRecords) (elements ! i) \<and>
                 (\<forall>j. j < i \<and> qualifies (indexedNetworkRecords networkRecords) (elements ! j) \<longrightarrow>
                        answered page settled j (elements ! j)))
           [0..<length elements])
   \<and> ((i, url) \<in> set (fst (afterPass_all page settled networkRecords (Fulfilled elements)))
        \<longleftrightarrow> i < length elements \<and> url = src (elements ! i)
            \<and> qualifies (indexedNetworkRecords_pick networkRecords) (elements ! i))
   \<and> ((i, url) \<in> set (fst (afterPass page settled networkRecords (Fulfilled elements)))
        \<longleftrightarrow> i < length elements \<and> url = src (elements ! i)
            \<and> qualifies (indexedNetworkRecords networkRecords) (elements ! i)
            \<and> (\<forall>j. j < i \<and> qualifies (indexedNetworkRecords networkRecords) (elements ! j) \<longrightarrow>
                        answered page settled j (elements ! j)))
   \<and> (snd (afterPass_all page settled networkRecords (Fulfilled elements)) = Fulfilled (heap, out)
        \<and> i < length elements
        \<and> \<not> qualifies (indexedNetworkRecords_pick networkRecords) (elements ! i) \<longrightarrow>
        heap ! (out ! i) =
          linkNetworkRecord (indexedNetworkRecords_pick networkRecords) (elements ! i))
   \<and> (snd (afterPass page settled networkRecords (Fulfilled elements)) = Fulfilled (heap', out')
        \<and> i < length elements
        \<and> \<not> qualifies (indexedNetworkRecords networkRecords) (elements ! i) \<longrightarrow>
        heap' ! (out' ! i) =
          linkNetworkRecord (indexedNetworkRecords networkRecords) (elements ! i))
   \<and> (idx (toString (src element)) = None \<longrightarrow>
        linkNetworkRecord idx element = element\<lparr>networkRecord := None\<rparr>
        \<and> (networkRecord element = None \<longrightarrow> linkNetworkRecord idx element = element))"
proof (intro conjI impI)
  show c1: "fst (afterPass_all page settled networkRecords (Fulfilled elements)) =
      map (\<lambda>i. (i, src (elements ! i)))
        (filter (\<lambda>i. qualifies (indexedNetworkRecords_pick networkRecords) (elements ! i))
           [0..<length elements])"
    by (simp only: afterPass_all_closed fst_conv)
  show c2: "fst (afterPass page settled networkRecords (Fulfilled elements)) =
      map (\<lambda>i. (i, src (elements ! i)))
        (filter (\<lambda>i. qualifies (indexedNetworkRecords networkRecords) (elements ! i) \<and>
                 (\<forall>j. j < i \<and> qualifies (indexedNetworkRecords networkRecords) (elements ! j) \<longrightarrow>
                        answered page settled j (elements ! j)))
           [0..<length elements])"
    by (simp only: afterPass_closed fst_conv)
  show "(i, url) \<in> set (fst (afterPass_all page settled networkRecords (Fulfilled elements)))
        \<longleftrightarrow> i < length elements \<and> url = src (elements ! i)
            \<and> qualifies (indexedNetworkRecords_pick networkRecords) (elements ! i)"
    by (simp only: c1 mem_calls)
  show "(i, url) \<in> set (fst (afterPass page settled networkRecords (Fulfilled elements)))
        \<longleftrightarrow> i < length elements \<and> url = src (elements ! i)
            \<and> qualifies (indexedNetworkRecords networkRecords) (elements ! i)
            \<and> (\<forall>j. j < i \<and> qualifies (indexedNetworkRecords networkRecords) (elements ! j) \<longrightarrow>
                        answered page settled j (elements ! j))"
    by (simp only: c2 mem_calls)
next
  assume "snd (afterPass_all page settled networkRecords (Fulfilled elements)) = Fulfilled (heap, out)
        \<and> i < length elements
        \<and> \<not> qualifies (indexedNetworkRecords_pick networkRecords) (elements ! i)"
  then show "heap ! (out ! i) =
          linkNetworkRecord (indexedNetworkRecords_pick networkRecords) (elements ! i)"
    by (intro afterPass_all_passes_through) blast+
next
  assume "snd (afterPass page settled networkRecords (Fulfilled elements)) = Fulfilled (heap', out')
        \<and> i < length elements
        \<and> \<not> qualifies (indexedNetworkRecords networkRecords) (elements ! i)"
  then show "heap' ! (out' ! i) =
          linkNetworkRecord (indexedNetworkRecords networkRecords) (elements ! i)"
    by (intro afterPass_passes_through) blast+
next
  assume u: "idx (toString (src element)) = None"
  then show "linkNetworkRecord idx element = element\<lparr>networkRecord := None\<rparr>"
    by (rule unmatched_unchanged)
  assume "networkRecord element = None"
  with u show "linkNetworkRecord idx element = element"
    by (rule unmatched_unchanged)
qed


text \<open>
  Two pictures with a network record each, and a page that never answers: the \<^verbatim>\<open>reduce\<close>
  revision sends the request of the first and none for the second.
\<close>

theorem size_request_iff_qualifies_counterexample:
  "(let P1 = \<lparr>tagName = ''IMG'', src = Some ''http://x/a.png'', srcset = [], srcsetUrls = [],
              sizes = [], media = None, clientWidth = 10, clientHeight = 10,
              naturalWidth = Some 0, naturalHeight = Some 0,
              isPicture = True, sources = None, networkRecord = None\<rparr>;
        P2 = \<lparr>tagName = ''IMG'', src = Some ''http://x/b.png'', srcset = [], srcsetUrls = [],
              sizes = [], media = None, clientWidth = 20, clientHeight = 20,
              naturalWidth = Some 0, naturalHeight = Some 0,
              isPicture = True, sources = None, networkRecord = None\<rparr>;
        networkRecords =
          [\<lparr>priv_url = ''http://x/a.png'', priv_mimeType = Some ''image/png'',
            getProp = [''resourceSize'' \<mapsto> (5::nat)]\<rparr>,
           \<lparr>priv_url = ''http://x/b.png'', priv_mimeType = Some ''image/png'',
            getProp = [''resourceSize'' \<mapsto> 7]\<rparr>];
        page = (\<lambda>i url. Load_event 100 50 :: unit image_event)
    in isPicture P2
       \<and> indexedNetworkRecords networkRecords (toString (src P2)) \<noteq> None
       \<and> fst (afterPass page [] networkRecords (Fulfilled [P1, P2]))
           = [(0, Some ''http://x/a.png'')]
       \<and> snd (afterPass page [] networkRecords (Fulfilled [P1, P2])) = Pending)"
  unfolding Let_def afterPass_closed
  by (simp add: upt_conv_Cons indexedNetworkRecords_def index_step_def
      test_image_def toString_def)

theorem size_request_iff_qualifies_witness:
  "(let P1 = \<lparr>tagName = ''IMG'', src = Some ''http://x/a.png'', srcset = [], srcsetUrls = [],
              sizes = [], media = None, clientWidth = 10, clientHeight = 10,
              naturalWidth = Some 0, naturalHeight = Some 0,
              isPicture = True, sources = None, networkRecord = None\<rparr>;
        P2 = \<lparr>tagName = ''IMG'', src = Some ''http://x/b.png'', srcset = [], srcsetUrls = [],
              sizes = [], media = None, clientWidth = 20, clientHeight = 20,
              naturalWidth = Some 0, naturalHeight = Some 0,
              isPicture = True, sources = None, networkRecord = None\<rparr>;
        U = \<lparr>tagName = ''IMG'', src = Some [], srcset = [], srcsetUrls = [],
              sizes = [], media = None, clientWidth = 30, clientHeight = 30,
              naturalWidth = Some 0, naturalHeight = Some 0,
              isPicture = True, sources = None, networkRecord = None\<rparr>;
        networkRecords =
          [\<lparr>priv_url = ''http://x/a.png'', priv_mimeType = Some ''image/png'',
            getProp = [''resourceSize'' \<mapsto> (5::nat)]\<rparr>,
           \<lparr>priv_url = ''http://x/b.png'', priv_mimeType = Some ''image/png'',
            getProp = [''resourceSize'' \<mapsto> 7]\<rparr>];
        page = (\<lambda>i url. Load_event 100 50 :: unit image_event)
    in fst (afterPass_all page [0] networkRecords (Fulfilled [P1, P2, U]))
         = [(0, Some ''http://x/a.png''), (1, Some ''http://x/b.png'')]
       \<and> fst (afterPass page [0] networkRecords (Fulfilled [P1, P2, U]))
         = [(0, Some ''http://x/a.png''), (1, Some ''http://x/b.png'')]
       \<and> fst (afterPass page [] networkRecords (Fulfilled [P1, P2, U]))
         = [(0, Some ''http://x/a.png'')])"
proof -
  let ?P1 = "\<lparr>tagName = ''IMG'', src = Some ''http://x/a.png'', srcset = [], srcsetUrls = [],
              sizes = [], media = None, clientWidth = 10, clientHeight = 10,
              naturalWidth = Some 0, naturalHeight = Some 0,
              isPicture = True, sources = None, networkRecord = None\<rparr> :: nat tag"
  let ?P2 = "\<lparr>tagName = ''IMG'', src = Some ''http://x/b.png'', srcset = [], srcsetUrls = [],
              sizes = [], media = None, clientWidth = 20, clientHeight = 20,
              naturalWidth = Some 0, naturalHeight = Some 0,
              isPicture = True, sources = None, networkRecord = None\<rparr> :: nat tag"
  let ?U = "\<lparr>tagName = ''IMG'', src = Some [], srcset = [], srcsetUrls = [],
              sizes = [], media = None, clientWidth = 30, clientHeight = 30,
              naturalWidth = Some 0, naturalHeight = Some 0,
              isPicture = True, sources = None, networkRecord = None\<rparr> :: nat tag"
  let ?nrs = "[\<lparr>priv_url = ''http://x/a.png'', priv_mimeType = Some ''image/png'',
            getProp = [''resourceSize'' \<mapsto> (5::nat)]\<rparr>,
           \<lparr>priv_url = ''http://x/b.png'', priv_mimeType = Some ''image/png'',
            getProp = [''resourceSize'' \<mapsto> 7]\<rparr>]"
  let ?page = "\<lambda>i url. Load_event 100 50 :: unit image_event"
  have i1: "indexedNetworkRecords ?nrs ''http://x/a.png'' \<noteq> None"
           "indexedNetworkRecords ?nrs ''http://x/b.png'' \<noteq> None"
           "indexedNetworkRecords ?nrs [] = None"
    by (simp_all add: indexedNetworkRecords_def index_step_def test_image_def toString_def)
  have i2: "indexedNetworkRecords_pick ?nrs ''http://x/a.png'' \<noteq> None"
           "indexedNetworkRecords_pick ?nrs ''http://x/b.png'' \<noteq> None"
           "indexedNetworkRecords_pick ?nrs [] = None"
    by (simp_all add: indexedNetworkRecords_pick_def index_step_pick_def test_image_def
        toString_def)
  have three: "[0..<length [?P1, ?P2, ?U]] = [0, 1, 2]" by (simp add: upt_conv_Cons)
  from size_request_iff_qualifies [of ?page "[0]" ?nrs "[?P1, ?P2, ?U]"]
  have "fst (afterPass_all ?page [0] ?nrs (Fulfilled [?P1, ?P2, ?U])) =
      map (\<lambda>i. (i, src ([?P1, ?P2, ?U] ! i)))
        (filter (\<lambda>i. qualifies (indexedNetworkRecords_pick ?nrs) ([?P1, ?P2, ?U] ! i))
           [0..<length [?P1, ?P2, ?U]])"
    and "fst (afterPass ?page [0] ?nrs (Fulfilled [?P1, ?P2, ?U])) =
      map (\<lambda>i. (i, src ([?P1, ?P2, ?U] ! i)))
        (filter (\<lambda>i. qualifies (indexedNetworkRecords ?nrs) ([?P1, ?P2, ?U] ! i) \<and>
                 (\<forall>j. j < i \<and> qualifies (indexedNetworkRecords ?nrs) ([?P1, ?P2, ?U] ! j) \<longrightarrow>
                        answered ?page [0] j ([?P1, ?P2, ?U] ! j)))
           [0..<length [?P1, ?P2, ?U]])"
    by blast+
  then have a: "fst (afterPass_all ?page [0] ?nrs (Fulfilled [?P1, ?P2, ?U]))
               = [(0, Some ''http://x/a.png''), (1, Some ''http://x/b.png'')]"
    and b: "fst (afterPass ?page [0] ?nrs (Fulfilled [?P1, ?P2, ?U]))
               = [(0, Some ''http://x/a.png''), (1, Some ''http://x/b.png'')]"
    unfolding three using i1 i2 by (simp_all add: toString_def less_Suc_eq)
  from size_request_iff_qualifies [of ?page "[]" ?nrs "[?P1, ?P2, ?U]"]
  have "fst (afterPass ?page [] ?nrs (Fulfilled [?P1, ?P2, ?U])) =
      map (\<lambda>i. (i, src ([?P1, ?P2, ?U] ! i)))
        (filter (\<lambda>i. qualifies (indexedNetworkRecords ?nrs) ([?P1, ?P2, ?U] ! i) \<and>
                 (\<forall>j. j < i \<and> qualifies (indexedNetworkRecords ?nrs) ([?P1, ?P2, ?U] ! j) \<longrightarrow>
                        answered ?page [] j ([?P1, ?P2, ?U] ! j)))
           [0..<length [?P1, ?P2, ?U]])"
    by blast
  then have c: "fst (afterPass ?page [] ?nrs (Fulfilled [?P1, ?P2, ?U]))
               = [(0, Some ''http://x/a.png'')]"
    unfolding three using i1 by (simp add: toString_def less_Suc_eq)
  from a b c show ?thesis unfolding Let_def by simp
qed

lemma afterPass_all_assigns_size:
  fixes page :: "'e page" and elements :: "'v tag list"
  assumes a: "snd (afterPass_all page settled networkRecords (Fulfilled elements))
              = Fulfilled (heap, out)"
    and i: "i < length elements"
    and q: "qualifies (indexedNetworkRecords_pick networkRecords) (elements ! i)"
    and l: "page i (src (elements ! i)) = Load_event w h"
  shows "heap ! (out ! i) =
         (elements ! i)\<lparr>naturalWidth := Some w, naturalHeight := Some h,
            networkRecord :=
              indexedNetworkRecords_pick networkRecords (toString (src (elements ! i)))\<rparr>"
proof -
  from a have o: "out = [0..<length elements]"
    and h: "heap = map (\<lambda>i. enriched page (indexedNetworkRecords_pick networkRecords) i
                              (elements ! i)) [0..<length elements]"
    unfolding afterPass_all_Fulfilled_iff by blast+
  have "out ! i = i" using i by (simp add: o)
  moreover
  have "heap ! i = enriched page (indexedNetworkRecords_pick networkRecords) i (elements ! i)"
    by (simp only: h nth_map_upt0 [OF i])
  ultimately have "heap ! (out ! i) =
      Object_assign (linkNetworkRecord (indexedNetworkRecords_pick networkRecords) (elements ! i))
        (NaturalSize w h)"
    using q l by simp
  then show ?thesis by (simp add: Object_assign_def linkNetworkRecord_eq)
qed

lemma afterPass_assigns_size:
  fixes page :: "'e page" and elements :: "'v tag list"
  assumes a: "snd (afterPass page settled networkRecords (Fulfilled elements))
              = Fulfilled (heap, out)"
    and i: "i < length elements"
    and q: "qualifies (indexedNetworkRecords networkRecords) (elements ! i)"
    and l: "page i (src (elements ! i)) = Load_event w h"
  shows "heap ! (out ! i) =
         (elements ! i)\<lparr>naturalWidth := Some w, naturalHeight := Some h,
            networkRecord :=
              indexedNetworkRecords networkRecords (toString (src (elements ! i)))\<rparr>"
proof -
  from a have o: "out = [0..<length elements]"
    and h: "heap = map (\<lambda>i. enriched page (indexedNetworkRecords networkRecords) i
                              (elements ! i)) [0..<length elements]"
    unfolding afterPass_Fulfilled_iff by blast+
  have "out ! i = i" using i by (simp add: o)
  moreover
  have "heap ! i = enriched page (indexedNetworkRecords networkRecords) i (elements ! i)"
    by (simp only: h nth_map_upt0 [OF i])
  ultimately have "heap ! (out ! i) =
      Object_assign (linkNetworkRecord (indexedNetworkRecords networkRecords) (elements ! i))
        (NaturalSize w h)"
    using q l by simp
  then show ?thesis by (simp add: Object_assign_def linkNetworkRecord_eq)
qed

text \<open>
  Claim C10. When the page answers a size request with a loaded image, the promise of
  \<^verbatim>\<open>fetchElementWithSizeInformation\<close> (and of \<^verbatim>\<open>fetchTagWithSizeInformation\<close>) is fulfilled
  with the reference of the element itself; in the heap only that element has changed, and
  of its fields only \<^verbatim>\<open>naturalWidth\<close> and \<^verbatim>\<open>naturalHeight\<close>, which hold the loaded image's
  size. In a returned sequence such an element is the input element with that size and its
  network record.
\<close>

theorem size_assignment_frame:
  fixes page :: "'e page" and heap :: "'v heap" and elements :: "'v tag list"
  shows
  "fetchElementWithSizeInformation (heap, calls) element =
     (calls @ [(element, src (heap ! element))], SizePromise element (src (heap ! element)))
   \<and> fetchTagWithSizeInformation (heap, calls) element =
     (calls @ [(element, src (heap ! element))], SizePromise element (src (heap ! element)))
   \<and> (element < length heap \<and> page element url = Load_event w h \<longrightarrow>
        (let heap' = heap[element := (heap ! element)\<lparr>naturalWidth := Some w,
                                                     naturalHeight := Some h\<rparr>]
         in settleSize page heap element url = Inr (heap', element)
            \<and> length heap' = length heap
            \<and> (\<forall>j. j \<noteq> element \<longrightarrow> heap' ! j = heap ! j)
            \<and> naturalWidth (heap' ! element) = Some w
            \<and> naturalHeight (heap' ! element) = Some h
            \<and> tagName (heap' ! element) = tagName (heap ! element)
            \<and> src (heap' ! element) = src (heap ! element)
            \<and> srcset (heap' ! element) = srcset (heap ! element)
            \<and> srcsetUrls (heap' ! element) = srcsetUrls (heap ! element)
            \<and> sizes (heap' ! element) = sizes (heap ! element)
            \<and> media (heap' ! element) = media (heap ! element)
            \<and> clientWidth (heap' ! element) = clientWidth (heap ! element)
            \<and> clientHeight (heap' ! element) = clientHeight (heap ! element)
            \<and> isPicture (heap' ! element) = isPicture (heap ! element)
            \<and> sources (heap' ! element) = sources (heap ! element)
            \<and> networkRecord (heap' ! element) = networkRecord (heap ! element)))
   \<and> (snd (afterPass page settled networkRecords (Fulfilled elements)) = Fulfilled (heap1, out1)
        \<and> i < length elements
        \<and> qualifies (indexedNetworkRecords networkRecords) (elements ! i)
        \<and> page i (src (elements ! i)) = Load_event w h \<longrightarrow>
        heap1 ! (out1 ! i) =
          (elements ! i)\<lparr>naturalWidth := Some w, naturalHeight := Some h,
             networkRecord :=
               indexedNetworkRecords networkRecords (toString (src (elements ! i)))\<rparr>)
   \<and> (snd (afterPass_all page settled networkRecords (Fulfilled elements)) = Fulfilled (heap2, out2)
        \<and> i < length elements
        \<and> qualifies (indexedNetworkRecords_pick networkRecords) (elements ! i)
        \<and> page i (src (elements ! i)) = Load_event w h \<longrightarrow>
        heap2 ! (out2 ! i) =
          (elements ! i)\<lparr>naturalWidth := Some w, naturalHeight := Some h,
             networkRecord :=
               indexedNetworkRecords_pick networkRecords (toString (src (elements ! i)))\<rparr>)"
proof (intro conjI impI)
  show "fetchElementWithSizeInformation (heap, calls) element =
     (calls @ [(element, src (heap ! element))], SizePromise element (src (heap ! element)))"
    by (simp add: fetchElementWithSizeInformation_def Let_def)
  show "fetchTagWithSizeInformation (heap, calls) element =
     (calls @ [(element, src (heap ! element))], SizePromise element (src (heap ! element)))"
    by (simp add: fetchTagWithSizeInformation_def Let_def)
next
  assume "element < length heap \<and> page element url = Load_event w h"
  then show "let heap' = heap[element := (heap ! element)\<lparr>naturalWidth := Some w,
                                                     naturalHeight := Some h\<rparr>]
         in settleSize page heap element url = Inr (heap', element)
            \<and> length heap' = length heap
            \<and> (\<forall>j. j \<noteq> element \<longrightarrow> heap' ! j = heap ! j)
            \<and> naturalWidth (heap' ! element) = Some w
            \<and> naturalHeight (heap' ! element) = Some h
            \<and> tagName (heap' ! element) = tagName (heap ! element)
            \<and> src (heap' ! element) = src (heap ! element)
            \<and> srcset (heap' ! element) = srcset (heap ! element)
            \<and> srcsetUrls (heap' ! element) = srcsetUrls (heap ! element)
            \<and> sizes (heap' ! element) = sizes (heap ! element)
            \<and> media (heap' ! element) = media (heap ! element)
            \<and> clientWidth (heap' ! element) = clientWidth (heap ! element)
            \<and> clientHeight (heap' ! element) = clientHeight (heap ! element)
            \<and> isPicture (heap' ! element) = isPicture (heap ! element)
            \<and> sources (heap' ! element) = sources (heap ! element)
            \<and> networkRecord (heap' ! element) = networkRecord (heap ! element)"
    by (simp add: Let_def settleSize_def determineNaturalSize_def Object_assign_def)
next
  assume "snd (afterPass page settled networkRecords (Fulfilled elements)) = Fulfilled (heap1, out1)
        \<and> i < length elements
        \<and> qualifies (indexedNetworkRecords networkRecords) (elements ! i)
        \<and> page i (src (elements ! i)) = Load_event w h"
  then show "heap1 ! (out1 ! i) =
          (elements ! i)\<lparr>naturalWidth := Some w, naturalHeight := Some h,
             networkRecord :=
               indexedNetworkRecords networkRecords (toString (src (elements ! i)))\<rparr>"
    by (intro afterPass_assigns_size) blast+
next
  assume "snd (afterPass_all page settled networkRecords (Fulfilled elements)) = Fulfilled (heap2, out2)
        \<and> i < length elements
        \<and> qualifies (indexedNetworkRecords_pick networkRecords) (elements ! i)
        \<and> page i (src (elements ! i)) = Load_event w h"
  then show "heap2 ! (out2 ! i) =
          (elements ! i)\<lparr>naturalWidth := Some w, naturalHeight := Some h,
             networkRecord :=
               indexedNetworkRecords_pick networkRecords (toString (src (elements ! i)))\<rparr>"
    by (intro afterPass_all_assigns_size) blast+
qed

theorem size_assignment_frame_witness:
  "settleSize (\<lambda>i url. Load_event 100 50 :: unit image_event)
     [\<lparr>tagName = ''IMG'', src = Some ''http://x/a.png'', srcset = ''a.png 1x'',
       srcsetUrls = [''http://x/a.png''], sizes = [], media = None,
       clientWidth = 10, clientHeight = 10, naturalWidth = Some 0, naturalHeight = Some 0,
       isPicture = True, sources = None,
       networkRecord = Some [''url'' \<mapsto> Some (5::nat)]\<rparr>]
     0 (Some ''http://x/a.png'')
   = Inr ([\<lparr>tagName = ''IMG'', src = Some ''http://x/a.png'', srcset = ''a.png 1x'',
            srcsetUrls = [''http://x/a.png''], sizes = [], media = None,
            clientWidth = 10, clientHeight = 10,
            naturalWidth = Some 100, naturalHeight = Some 50,
            isPicture = True, sources = None,
            networkRecord = Some [''url'' \<mapsto> Some 5]\<rparr>], 0)"
  using size_assignment_frame
    [of "[\<lparr>tagName = ''IMG'', src = Some ''http://x/a.png'', srcset = ''a.png 1x'',
       srcsetUrls = [''http://x/a.png''], sizes = [], media = None,
       clientWidth = 10, clientHeight = 10, naturalWidth = Some 0, naturalHeight = Some 0,
       isPicture = True, sources = None,
       networkRecord = Some [''url'' \<mapsto> Some (5::nat)]\<rparr>]" "[]" 0
       "\<lambda>i url. Load_event 100 50 :: unit image_event" "Some ''http://x/a.png''" 100 50]
  by (simp add: Let_def)

end
